theory Spec2Isabelle
  imports Complex_Main "HOL-Library.AList" "HOL-Library.Word"
begin

section \<open>Python values and exceptions\<close>

text \<open>
  The exceptions that the modelled functions of \<^verbatim>\<open>src/utils/file_handler.py\<close> and
  \<^verbatim>\<open>src/utils/config.py\<close> raise themselves or let through from the standard library.
  A function that may raise returns \<open>error + 'a\<close>, with \<open>Inl\<close> for the exception.
\<close>

datatype error =
    IndexError | KeyError | ValueError | TypeError | AttributeError | EOFError
  | ReadError | JSONDecodeError | UnicodeDecodeError | OSError | RecursionError

type_synonym byte = "8 word"

text \<open>
  What \<^verbatim>\<open>json.load\<close> and \<^verbatim>\<open>json.loads\<close> return: \<^verbatim>\<open>None\<close>, booleans, integers,
  floats, strings, lists, and dicts with string keys in insertion order. Python strings are
  modelled as \<open>string\<close>; characters beyond one byte are outside the model.
\<close>

datatype json =
    JNull | JBool bool | JInt int | JFloat real | JStr string
  | JList "json list" | JObject "(string \<times> json) list"

text \<open>
  The two library functions the readers call on file content. They are parameters of the
  model: \<^verbatim>\<open>bytes.decode('utf-8')\<close> (raising \<^verbatim>\<open>UnicodeDecodeError\<close>) and
  \<^verbatim>\<open>json.loads\<close> (raising \<^verbatim>\<open>JSONDecodeError\<close>).
\<close>

record pylib =
  utf8_decode :: "byte list \<Rightarrow> error + string"
  json_loads :: "string \<Rightarrow> error + json"

text \<open>
  An instance of the library for concrete runs: it decodes one-byte (ASCII) text, and parses
  the three documents \<^verbatim>\<open>null\<close>, \<^verbatim>\<open>true\<close> and \<^verbatim>\<open>false\<close>.
\<close>

definition sample_lib :: pylib where
  "sample_lib =
     \<lparr>utf8_decode =
        (\<lambda>bs. if \<forall>b \<in> set bs. b < 0x80 then Inr (map (\<lambda>b. char_of (unat b)) bs)
              else Inl UnicodeDecodeError),
      json_loads =
        (\<lambda>s. if s = ''null'' then Inr JNull
             else if s = ''true'' then Inr (JBool True)
             else if s = ''false'' then Inr (JBool False)
             else Inl JSONDecodeError)\<rparr>"

subsection \<open>The built-in \<^verbatim>\<open>int\<close> on a string\<close>

text \<open>
  \<^verbatim>\<open>int(s)\<close> in base ten, on one-byte characters: surrounding whitespace is stripped, one
  sign may lead, and the digits may be grouped by single underscores. Anything else raises
  \<^verbatim>\<open>ValueError\<close>. The whitespace \<^verbatim>\<open>int\<close> strips is the space, the five characters from the
  tab U+0009 to the carriage return U+000D, and of the other one-byte characters U+0085
  and U+00A0; the separators U+001C to U+001F, which \<^verbatim>\<open>str.strip\<close> removes, are not
  stripped by \<^verbatim>\<open>int\<close>.
  A string with more digits than \<^verbatim>\<open>sys.get_int_max_str_digits()\<close> raises \<^verbatim>\<open>ValueError\<close>, leading
  zeros counted and underscores not; the limit is the interpreter's default, 4300.
\<close>

definition is_space :: "char \<Rightarrow> bool" where
  "is_space c = (c \<in> set [CHR '' '', CHR 0x09, CHR 0x0A, CHR 0x0B, CHR 0x0C, CHR 0x0D,
                           CHR 0x85, CHR 0xA0])"

definition strip :: "string \<Rightarrow> string" where
  "strip s = rev (dropWhile is_space (rev (dropWhile is_space s)))"

definition is_digit :: "char \<Rightarrow> bool" where
  "is_digit c = (c \<in> set ''0123456789'')"

definition digit_val :: "char \<Rightarrow> nat" where
  "digit_val c = of_char c - 48"

fun parse_digits :: "nat \<Rightarrow> string \<Rightarrow> nat option" where
  "parse_digits acc [] = None"
| "parse_digits acc (c # cs) =
     (if is_digit c then
        (let acc' = 10 * acc + digit_val c in
         case cs of
           [] \<Rightarrow> Some acc'
         | d # ds \<Rightarrow> if d = CHR ''_'' then parse_digits acc' ds else parse_digits acc' cs)
      else None)"

definition int_max_str_digits :: nat where
  "int_max_str_digits = 4300"

definition py_int :: "string \<Rightarrow> error + int" where
  "py_int s =
     (if int_max_str_digits < length (filter is_digit s) then Inl ValueError
      else
        (case strip s of
           [] \<Rightarrow> Inl ValueError
         | c # cs \<Rightarrow>
             if c = CHR ''-'' then
               (case parse_digits 0 cs of None \<Rightarrow> Inl ValueError | Some n \<Rightarrow> Inr (- int n))
             else if c = CHR ''+'' then
               (case parse_digits 0 cs of None \<Rightarrow> Inl ValueError | Some n \<Rightarrow> Inr (int n))
             else
               (case parse_digits 0 (c # cs) of
                  None \<Rightarrow> Inl ValueError
                | Some n \<Rightarrow> Inr (int n))))"

text \<open>The number a string of decimal digits denotes.\<close>

definition dec_value :: "string \<Rightarrow> nat" where
  "dec_value s = foldl (\<lambda>a c. 10 * a + digit_val c) 0 s"

subsection \<open>Regular expressions: \<^verbatim>\<open>re.compile(p).match\<close>\<close>

text \<open>
  A compiled pattern, for the operators the code uses. \<open>Dot\<close> is \<^verbatim>\<open>.\<close>, which matches any
  character but a newline. \<open>Never\<close> matches nothing; it only arises as a derivative.
  \<open>re_match p s\<close> is \<^verbatim>\<open>p.match(s) is not None\<close>: some prefix of \<open>s\<close> matches \<open>p\<close>
  (\<^verbatim>\<open>match\<close> anchors at the start of the string only).
\<close>

datatype regex =
    Never | Eps | Lit char | Dot | Seq regex regex | Alt regex regex | Star regex

fun nullable :: "regex \<Rightarrow> bool" where
  "nullable Never = False"
| "nullable Eps = True"
| "nullable (Lit c) = False"
| "nullable Dot = False"
| "nullable (Seq r s) = (nullable r \<and> nullable s)"
| "nullable (Alt r s) = (nullable r \<or> nullable s)"
| "nullable (Star r) = True"

fun deriv :: "char \<Rightarrow> regex \<Rightarrow> regex" where
  "deriv c Never = Never"
| "deriv c Eps = Never"
| "deriv c (Lit d) = (if c = d then Eps else Never)"
| "deriv c Dot = (if c = CHR 0x0A then Never else Eps)"
| "deriv c (Seq r s) =
     (if nullable r then Alt (Seq (deriv c r) s) (deriv c s) else Seq (deriv c r) s)"
| "deriv c (Alt r s) = Alt (deriv c r) (deriv c s)"
| "deriv c (Star r) = Seq (deriv c r) (Star r)"

fun re_match :: "regex \<Rightarrow> string \<Rightarrow> bool" where
  "re_match r [] = nullable r"
| "re_match r (c # cs) = (nullable r \<or> re_match (deriv c r) cs)"

text \<open>A literal string as a pattern.\<close>

fun lit :: "string \<Rightarrow> regex" where
  "lit [] = Eps"
| "lit (c # cs) = Seq (Lit c) (lit cs)"

text \<open>The language of a pattern, to state what \<open>re_match\<close> decides.\<close>

inductive_set star :: "string set \<Rightarrow> string set" for A :: "string set" where
  star_nil: "[] \<in> star A"
| star_app: "u \<in> A \<Longrightarrow> v \<in> star A \<Longrightarrow> u @ v \<in> star A"

fun lang :: "regex \<Rightarrow> string set" where
  "lang Never = {}"
| "lang Eps = {[]}"
| "lang (Lit c) = {[c]}"
| "lang Dot = {[c] | c. c \<noteq> CHR 0x0A}"
| "lang (Seq r s) = {u @ v | u v. u \<in> lang r \<and> v \<in> lang s}"
| "lang (Alt r s) = lang r \<union> lang s"
| "lang (Star r) = star (lang r)"

section \<open>\<^verbatim>\<open>src/utils/file_handler.py\<close>\<close>

subsection \<open>Streams: \<^verbatim>\<open>read_file_object\<close>\<close>






subsection \<open>Tar archives\<close>

text \<open>
  An open \<^verbatim>\<open>TarFile\<close>: its members in the order of the archive. A member has a name and,
  when \<^verbatim>\<open>extractfile\<close> gives a file object for it, the bytes that object reads; for a
  directory or a device \<^verbatim>\<open>extractfile\<close> returns \<^verbatim>\<open>None\<close>. \<^verbatim>\<open>getmember(name)\<close> searches for
  \<^verbatim>\<open>name.rstrip('/')\<close>, from the last member to the first: names may repeat, and it then
  takes the last occurrence; it raises \<^verbatim>\<open>KeyError\<close> when no member has the stripped name.
  \<^verbatim>\<open>tarfile.open\<close> is a parameter: the archive at a path, or the
  exception (\<^verbatim>\<open>ReadError\<close> for a file that is no tar archive, \<^verbatim>\<open>OSError\<close> for a missing
  one).
\<close>

record member =
  mname :: string
  mdata :: "byte list option"

type_synonym archive = "member list"

definition getmembers :: "archive \<Rightarrow> member list" where
  "getmembers tar = tar"

definition getnames :: "archive \<Rightarrow> string list" where
  "getnames tar = map mname (getmembers tar)"

definition rstrip_slash :: "string \<Rightarrow> string" where
  "rstrip_slash n = rev (dropWhile (\<lambda>c. c = CHR ''/'') (rev n))"

definition getmember :: "archive \<Rightarrow> string \<Rightarrow> error + member" where
  "getmember tar n =
     (case filter (\<lambda>m. mname m = rstrip_slash n) (rev (getmembers tar)) of
        [] \<Rightarrow> Inl KeyError
      | m # _ \<Rightarrow> Inr m)"

subsection \<open>\<^verbatim>\<open>read_tarfile\<close>\<close>

text \<open>The pattern \<^verbatim>\<open>re.compile(r'.*\.json')\<close>.\<close>

definition json_pattern :: regex where
  "json_pattern = Seq (Star Dot) (lit ''.json'')"

text \<open>
  The interactive loop of \<^verbatim>\<open>read_tarfile\<close>: it reads lines from standard input until one
  is the number of a listed file. A line that is no number raises \<^verbatim>\<open>ValueError\<close>, which
  the loop catches; at the end of the input \<^verbatim>\<open>input()\<close> raises \<^verbatim>\<open>EOFError\<close>, which it
  does not. \<open>n\<close> is \<^verbatim>\<open>len(tar_files)\<close>.
\<close>

fun prompt_selection :: "nat \<Rightarrow> string list \<Rightarrow> error + nat" where
  "prompt_selection n [] = Inl EOFError"
| "prompt_selection n (selection # rest) =
     (case py_int selection of
        Inl e \<Rightarrow> prompt_selection n rest
      | Inr i \<Rightarrow>
          (let selected_index = i - 1 in
           if 0 \<le> selected_index \<and> selected_index < int n then Inr (nat selected_index)
           else prompt_selection n rest))"

definition select_index ::
  "string list \<Rightarrow> int option \<Rightarrow> bool \<Rightarrow> string list \<Rightarrow> error + nat" where
  "select_index tar_files select_json auto_select stdin =
     (if 1 < length tar_files then
        (if (case select_json of
               None \<Rightarrow> False
             | Some i \<Rightarrow> 0 \<le> i \<and> i < int (length tar_files))
         then Inr (nat (the select_json))
         else if auto_select then Inr 0
         else prompt_selection (length tar_files) stdin)
      else Inr 0)"

text \<open>
  The candidates of \<^verbatim>\<open>read_tarfile\<close>: \<^verbatim>\<open>list(filter(pattern.match, tar_contents))\<close>.
\<close>

definition json_candidates :: "archive \<Rightarrow> string list" where
  "json_candidates tar = filter (re_match json_pattern) (getnames tar)"

text \<open>
  Reading the chosen member: \<^verbatim>\<open>tar.extractfile(tar.getmember(name))\<close>, the \<^verbatim>\<open>KeyError\<close>
  for a member that cannot be read, then decoding and parsing.
\<close>

definition load_member :: "pylib \<Rightarrow> archive \<Rightarrow> string \<Rightarrow> error + json" where
  "load_member lib tar n =
     (case getmember tar n of
        Inl e \<Rightarrow> Inl e
      | Inr m \<Rightarrow>
          (case mdata m of
             None \<Rightarrow> Inl KeyError
           | Some bs \<Rightarrow>
               (case utf8_decode lib bs of
                  Inl e \<Rightarrow> Inl e
                | Inr s \<Rightarrow> json_loads lib s)))"

definition read_tarfile ::
  "pylib \<Rightarrow> (string \<Rightarrow> error + archive) \<Rightarrow> string list \<Rightarrow>
   string \<Rightarrow> int option \<Rightarrow> bool \<Rightarrow> error + json" where
  "read_tarfile lib tar_open stdin filename select_json auto_select =
     (case tar_open filename of
        Inl e \<Rightarrow> Inl e
      | Inr tar \<Rightarrow>
          (let tar_files = json_candidates tar in
           if tar_files = [] then Inl IndexError
           else
             (case select_index tar_files select_json auto_select stdin of
                Inl e \<Rightarrow> Inl e
              | Inr selected_index \<Rightarrow> load_member lib tar (tar_files ! selected_index))))"

subsection \<open>\<^verbatim>\<open>extract_tar_contents\<close>\<close>

text \<open>
  The file system as the extraction changes it: the paths written, each with the bytes of
  a regular file or \<open>None\<close> for a directory or another kind of entry.
  \<^verbatim>\<open>os.path.join\<close> is the POSIX one. \<^verbatim>\<open>os.makedirs(output_dir, exist_ok=True)\<close> leaves
  the directory in place; \<^verbatim>\<open>TarFile.extractall(path, members)\<close> is the library's
  extraction without an extraction filter, which writes each member it is given at
  \<^verbatim>\<open>os.path.join(path, member.name)\<close>. Failures of the operating system are outside the
  model.
\<close>

type_synonym disk = "(string \<times> byte list option) list"

definition path_join :: "string \<Rightarrow> string \<Rightarrow> string" where
  "path_join a b =
     (if b \<noteq> [] \<and> hd b = CHR ''/'' then b
      else if a = [] \<or> last a = CHR ''/'' then a @ b
      else a @ ''/'' @ b)"

definition makedirs :: "string \<Rightarrow> disk \<Rightarrow> disk" where
  "makedirs p d = AList.update p None d"

definition extractall :: "string \<Rightarrow> member list \<Rightarrow> disk \<Rightarrow> disk" where
  "extractall p members d =
     foldl (\<lambda>d m. AList.update (path_join p (mname m)) (mdata m) d) d members"

text \<open>
  \<^verbatim>\<open>extract_tar_contents\<close>. The pattern is given compiled; \<^verbatim>\<open>if file_pattern:\<close> and
  \<^verbatim>\<open>if output_dir:\<close> are false for \<^verbatim>\<open>None\<close> and for the empty string.
\<close>

definition extract_tar_contents ::
  "(string \<Rightarrow> error + archive) \<Rightarrow> disk \<Rightarrow>
   string \<Rightarrow> string option \<Rightarrow> regex option \<Rightarrow> (error + string list) \<times> disk" where
  "extract_tar_contents tar_open d tar_filename output_dir file_pattern =
     (case tar_open tar_filename of
        Inl e \<Rightarrow> (Inl e, d)
      | Inr tar \<Rightarrow>
          (let members =
                 (case file_pattern of
                    None \<Rightarrow> getmembers tar
                  | Some pattern \<Rightarrow> filter (\<lambda>m. re_match pattern (mname m)) (getmembers tar))
           in
           if output_dir \<noteq> None \<and> output_dir \<noteq> Some [] then
             (Inr (map (\<lambda>m. path_join (the output_dir) (mname m)) members),
              extractall (the output_dir) members (makedirs (the output_dir) d))
           else (Inr (map mname members), d)))"

subsection \<open>Notions for the statements about \<^verbatim>\<open>file_handler.py\<close>\<close>

text \<open>
  A name with the extension \<^verbatim>\<open>.json\<close>, as the comment in \<^verbatim>\<open>read_tarfile\<close> words it: the
  name ends with \<^verbatim>\<open>.json\<close>. This is not what the pattern of the code decides.
\<close>

definition ends_with_json :: "string \<Rightarrow> bool" where
  "ends_with_json n = (take 5 (rev n) = rev ''.json'')"


section \<open>\<^verbatim>\<open>src/utils/config.py\<close>\<close>

subsection \<open>The store\<close>

text \<open>
  \<^verbatim>\<open>load_config\<close> updates dicts in place, so the dicts it works on are objects in a store:
  a \<open>PRef\<close> is a reference to the dict at that address, and two references to one address
  are the same dict. A dict keeps its entries in insertion order; assigning to a key it
  has replaces the value in place, assigning to a new key appends. Lists are never updated
  by this module and are kept as values.
\<close>

type_synonym addr = nat

datatype pval =
    PNone | PBool bool | PInt int | PFloat real | PStr string
  | PList "pval list" | PRef addr

type_synonym pdict = "(string \<times> pval) list"

type_synonym store = "pdict list"

definition dict_get :: "store \<Rightarrow> addr \<Rightarrow> string \<Rightarrow> pval option" where
  "dict_get h a k = (if a < length h then map_of (h ! a) k else None)"

definition dict_set :: "store \<Rightarrow> addr \<Rightarrow> string \<Rightarrow> pval \<Rightarrow> store" where
  "dict_set h a k v = h[a := AList.update k v (h ! a)]"

text \<open>The addresses a value refers to, and those a dict refers to.\<close>

fun refs :: "pval \<Rightarrow> addr set" where
  "refs (PRef a) = {a}"
| "refs (PList xs) = (\<Union>x \<in> set xs. refs x)"
| "refs v = {}"

definition drefs :: "pdict \<Rightarrow> addr set" where
  "drefs d = (\<Union>kv \<in> set d. refs (snd kv))"

text \<open>
  Building the objects of a JSON value (a dict literal of the module, or a value that
  \<^verbatim>\<open>json.load\<close> returned): the dicts inside a dict are built before it, and every dict is
  a new object at the end of the store. The entries of a \<open>JObject\<close> are those of a Python
  dict: their keys are distinct.
\<close>

function alloc :: "json \<Rightarrow> store \<Rightarrow> pval \<times> store"
  and alloc_list :: "json list \<Rightarrow> store \<Rightarrow> pval list \<times> store"
  and alloc_items :: "(string \<times> json) list \<Rightarrow> store \<Rightarrow> pdict \<times> store"
where
  "alloc JNull h = (PNone, h)"
| "alloc (JBool b) h = (PBool b, h)"
| "alloc (JInt i) h = (PInt i, h)"
| "alloc (JFloat x) h = (PFloat x, h)"
| "alloc (JStr s) h = (PStr s, h)"
| "alloc (JList xs) h = (case alloc_list xs h of (ys, h') \<Rightarrow> (PList ys, h'))"
| "alloc (JObject kvs) h =
     (case alloc_items kvs h of (d, h') \<Rightarrow> (PRef (length h'), h' @ [d]))"
| "alloc_list [] h = ([], h)"
| "alloc_list (x # xs) h =
     (case alloc x h of (y, h1) \<Rightarrow> case alloc_list xs h1 of (ys, h2) \<Rightarrow> (y # ys, h2))"
| "alloc_items [] h = ([], h)"
| "alloc_items ((k, v) # kvs) h =
     (case alloc v h of (y, h1) \<Rightarrow> case alloc_items kvs h1 of (d, h2) \<Rightarrow> ((k, y) # d, h2))"
  by pat_completeness auto
termination
  by (relation "measure (\<lambda>x. case x of
        Inl (j, h) \<Rightarrow> size j
      | Inr (Inl (xs, h)) \<Rightarrow> size_list size xs
      | Inr (Inr (kvs, h)) \<Rightarrow> size_list (size_prod (\<lambda>k. 0) size) kvs)") auto

text \<open>
  Reading a value back out of the store as a JSON value, following references to the
  given depth; \<open>None\<close> beyond it. Two values that read back equal are deep-equal.
\<close>

primrec reify :: "nat \<Rightarrow> store \<Rightarrow> pval \<Rightarrow> json option" where
  "reify 0 h v = None"
| "reify (Suc n) h v =
     (case v of
        PNone \<Rightarrow> Some JNull
      | PBool b \<Rightarrow> Some (JBool b)
      | PInt i \<Rightarrow> Some (JInt i)
      | PFloat x \<Rightarrow> Some (JFloat x)
      | PStr s \<Rightarrow> Some (JStr s)
      | PList xs \<Rightarrow> map_option JList (those (map (reify n h) xs))
      | PRef a \<Rightarrow>
          if a < length h then
            map_option JObject
              (those (map (\<lambda>kv. map_option (Pair (fst kv)) (reify n h (snd kv))) (h ! a)))
          else None)"

subsection \<open>\<^verbatim>\<open>DEFAULT_CONFIG\<close>\<close>

text \<open>The dict literal of the module.\<close>

definition DEFAULT_CONFIG :: json where
  "DEFAULT_CONFIG = JObject
     [(''database'', JObject
         [(''host'', JStr ''localhost''),
          (''port'', JInt 5432),
          (''dbname'', JStr ''skype_archive''),
          (''user'', JStr ''postgres''),
          (''password'', JStr [])]),
      (''output'', JObject
         [(''directory'', JStr ''output''),
          (''overwrite'', JBool False)]),
      (''logging'', JObject
         [(''level'', JStr ''INFO''),
          (''file'', JNull)]),
      (''message_types'', JObject
         [(''Event/Call'', JStr ''***A call started/ended***''),
          (''Poll'', JStr ''***Created a poll***''),
          (''RichText/Media_Album'', JStr ''***Sent an album of images***''),
          (''RichText/Media_AudioMsg'', JStr ''***Sent a voice message***''),
          (''RichText/Media_CallRecording'', JStr ''***Sent a call recording***''),
          (''RichText/Media_Card'', JStr ''***Sent a media card***''),
          (''RichText/Media_FlikMsg'', JStr ''***Sent a moji***''),
          (''RichText/Media_GenericFile'', JStr ''***Sent a file***''),
          (''RichText/Media_Video'', JStr ''***Sent a video message***''),
          (''RichText/UriObject'', JStr ''***Sent a photo***''),
          (''RichText/ScheduledCallInvite'', JStr ''***Scheduled a call***''),
          (''RichText/Location'', JStr ''***Sent a location***''),
          (''RichText/Contacts'', JStr ''***Sent a contact***'')]),
      (''default_message_format'', JStr ''***Sent a {message_type}***'')]"

text \<open>
  Importing the module evaluates the literal: the store then holds the four section dicts
  and the top-level dict, and the global \<^verbatim>\<open>DEFAULT_CONFIG\<close> refers to the latter.
  A store has the module installed when its first objects are these, whatever was built
  after them.
\<close>

definition module_store :: store where
  "module_store = snd (alloc DEFAULT_CONFIG [])"

definition DEFAULT_CONFIG_obj :: pval where
  "DEFAULT_CONFIG_obj = fst (alloc DEFAULT_CONFIG [])"

definition installed :: "store \<Rightarrow> bool" where
  "installed h = (take (length module_store) h = module_store)"

subsection \<open>\<^verbatim>\<open>copy.deepcopy\<close>\<close>

text \<open>
  \<^verbatim>\<open>copy.deepcopy\<close> with its memo: a dict that has been copied already (the memo maps its
  address to the copy's) is not copied again; otherwise the copy is a new empty dict,
  entered in the memo, and filled entry by entry with the copies of the values. Values
  other than dicts and lists are returned as they are. The first argument bounds the
  depth of the recursion, as the interpreter's recursion limit does; \<open>None\<close> is the
  \<^verbatim>\<open>RecursionError\<close>.
\<close>

type_synonym copying = "store \<times> (addr \<Rightarrow> addr option)"

fun copy_items ::
  "(pval \<Rightarrow> copying \<Rightarrow> (pval \<times> copying) option) \<Rightarrow>
   pdict \<Rightarrow> addr \<Rightarrow> copying \<Rightarrow> copying option" where
  "copy_items cp [] y s = Some s"
| "copy_items cp ((k, v) # kvs) y s =
     (case cp v s of
        None \<Rightarrow> None
      | Some (v', (h, memo)) \<Rightarrow> copy_items cp kvs y (dict_set h y k v', memo))"

fun copy_list ::
  "(pval \<Rightarrow> copying \<Rightarrow> (pval \<times> copying) option) \<Rightarrow>
   pval list \<Rightarrow> copying \<Rightarrow> (pval list \<times> copying) option" where
  "copy_list cp [] s = Some ([], s)"
| "copy_list cp (v # vs) s =
     (case cp v s of
        None \<Rightarrow> None
      | Some (v', s1) \<Rightarrow>
          (case copy_list cp vs s1 of
             None \<Rightarrow> None
           | Some (vs', s2) \<Rightarrow> Some (v' # vs', s2)))"

primrec deepcopy :: "nat \<Rightarrow> pval \<Rightarrow> copying \<Rightarrow> (pval \<times> copying) option" where
  "deepcopy 0 x s = None"
| "deepcopy (Suc n) x s =
     (case x of
        PRef a \<Rightarrow>
          (case snd s a of
             Some y \<Rightarrow> Some (PRef y, s)
           | None \<Rightarrow>
               if a < length (fst s) then
                 (let y = length (fst s) in
                  case copy_items (deepcopy n) (fst s ! a) y
                         (fst s @ [[]], (snd s)(a \<mapsto> y)) of
                    None \<Rightarrow> None
                  | Some s' \<Rightarrow> Some (PRef y, s'))
               else None)
      | PList xs \<Rightarrow>
          (case copy_list (deepcopy n) xs s of
             None \<Rightarrow> None
           | Some (ys, s') \<Rightarrow> Some (PList ys, s'))
      | _ \<Rightarrow> Some (x, s))"

definition recursion_limit :: nat where
  "recursion_limit = 1000"

subsection \<open>\<^verbatim>\<open>_deep_update\<close>\<close>

text \<open>
  \<^verbatim>\<open>target[key] = value\<close> for a value that \<^verbatim>\<open>json.load\<close> returned. The objects of such a
  value are not shared with anything but the document they come from, so they are built
  in the store when the value is assigned.
\<close>

definition assign :: "store \<Rightarrow> addr \<Rightarrow> string \<Rightarrow> json \<Rightarrow> store" where
  "assign h target key val = (case alloc val h of (v, h') \<Rightarrow> dict_set h' target key v)"

text \<open>
  \<^verbatim>\<open>_deep_update(target, source)\<close>, for a target in the store and the entries of a source
  that \<^verbatim>\<open>json.load\<close> returned. Where the target has the key with a dict (\<open>sub_dict\<close>) and
  the value is a dict, the update goes into that dict; otherwise
  \<^verbatim>\<open>target[key] = value\<close>.
\<close>

definition sub_dict :: "store \<Rightarrow> addr \<Rightarrow> string \<Rightarrow> addr option" where
  "sub_dict h target key =
     (case dict_get h target key of Some (PRef t) \<Rightarrow> Some t | _ \<Rightarrow> None)"

function (sequential) deep_update :: "store \<Rightarrow> addr \<Rightarrow> (string \<times> json) list \<Rightarrow> store" where
  "deep_update h target [] = h"
| "deep_update h target ((key, JObject d) # source) =
     (case sub_dict h target key of
        Some t \<Rightarrow> deep_update (deep_update h t d) target source
      | None \<Rightarrow> deep_update (assign h target key (JObject d)) target source)"
| "deep_update h target ((key, val) # source) =
     deep_update (assign h target key val) target source"
  by pat_completeness auto
termination
  by (relation "measure (\<lambda>(h, t, kvs). size_list (size_prod (\<lambda>k. 0) size) kvs)") auto

subsection \<open>\<^verbatim>\<open>load_config\<close>\<close>

text \<open>
  The files: for a path that exists, what \<^verbatim>\<open>open\<close> and \<^verbatim>\<open>json.load\<close> give, a document or
  an exception; \<open>None\<close> for a path that does not exist. The environment: \<^verbatim>\<open>os.getenv\<close>.
\<close>

type_synonym files = "string \<Rightarrow> (error + json) option"

type_synonym environ = "string \<Rightarrow> string option"

text \<open>
  The first \<^verbatim>\<open>if\<close> of \<^verbatim>\<open>load_config\<close>. The \<^verbatim>\<open>except\<close> clause logs every exception: one of
  \<^verbatim>\<open>open\<close> or \<^verbatim>\<open>json.load\<close>, or the \<^verbatim>\<open>AttributeError\<close> of \<^verbatim>\<open>source.items()\<close> for a
  document that is no dict, which is raised before anything is assigned.
\<close>

definition merge_config_file :: "store \<Rightarrow> pval \<Rightarrow> files \<Rightarrow> string option \<Rightarrow> store" where
  "merge_config_file h config fs config_file =
     (case config_file of
        None \<Rightarrow> h
      | Some p \<Rightarrow>
          if p = [] then h
          else
            (case fs p of
               None \<Rightarrow> h
             | Some (Inl e) \<Rightarrow> h
             | Some (Inr file_config) \<Rightarrow>
                 (case (config, file_config) of
                    (PRef c, JObject source) \<Rightarrow> deep_update h c source
                  | _ \<Rightarrow> h)))"

text \<open>
  The second \<^verbatim>\<open>if\<close>: \<^verbatim>\<open>config[key] = message_types_config[key]\<close> for each of the two keys
  the document has. For a document that is no dict, either both \<^verbatim>\<open>in\<close> tests are false or
  the test or the subscript raises \<^verbatim>\<open>TypeError\<close> before anything is assigned.
\<close>

definition assign_from :: "(string \<times> json) list \<Rightarrow> string \<Rightarrow> addr \<Rightarrow> store \<Rightarrow> store" where
  "assign_from source key c h =
     (case map_of source key of
        None \<Rightarrow> h
      | Some val \<Rightarrow> assign h c key val)"

definition merge_message_types_file ::
  "store \<Rightarrow> pval \<Rightarrow> files \<Rightarrow> string option \<Rightarrow> store" where
  "merge_message_types_file h config fs message_types_file =
     (case message_types_file of
        None \<Rightarrow> h
      | Some p \<Rightarrow>
          if p = [] then h
          else
            (case fs p of
               None \<Rightarrow> h
             | Some (Inl e) \<Rightarrow> h
             | Some (Inr message_types_config) \<Rightarrow>
                 (case (config, message_types_config) of
                    (PRef c, JObject source) \<Rightarrow>
                      assign_from source ''default_message_format'' c
                        (assign_from source ''message_types'' c h)
                  | _ \<Rightarrow> h)))"

text \<open>
  The nine overrides, in the order of the source: the variable, what is made of its
  value, and the section and key that are assigned. \<^verbatim>\<open>str.lower\<close> is the one of one-byte
  characters.
\<close>

datatype conversion = AsStr | AsInt | AsFlag

definition lower :: "string \<Rightarrow> string" where
  "lower s = map (\<lambda>c. let n = (of_char c :: nat) in
                       if 65 \<le> n \<and> n \<le> 90 then char_of (n + 32) else c) s"

fun convert :: "conversion \<Rightarrow> string \<Rightarrow> error + pval" where
  "convert AsStr s = Inr (PStr s)"
| "convert AsInt s = (case py_int s of Inl e \<Rightarrow> Inl e | Inr i \<Rightarrow> Inr (PInt i))"
| "convert AsFlag s = Inr (PBool (lower s \<in> set [''true'', ''yes'', ''1'']))"

definition overrides :: "(string \<times> conversion \<times> string \<times> string) list" where
  "overrides =
     [(''POSTGRES_HOST'', AsStr, ''database'', ''host''),
      (''POSTGRES_PORT'', AsInt, ''database'', ''port''),
      (''POSTGRES_DB'', AsStr, ''database'', ''dbname''),
      (''POSTGRES_USER'', AsStr, ''database'', ''user''),
      (''POSTGRES_PASSWORD'', AsStr, ''database'', ''password''),
      (''OUTPUT_DIR'', AsStr, ''output'', ''directory''),
      (''OUTPUT_OVERWRITE'', AsFlag, ''output'', ''overwrite''),
      (''LOG_LEVEL'', AsStr, ''logging'', ''level''),
      (''LOG_FILE'', AsStr, ''logging'', ''file'')]"

text \<open>
  \<^verbatim>\<open>config[section][key] = v\<close>: \<^verbatim>\<open>KeyError\<close> for a missing section, \<^verbatim>\<open>TypeError\<close> for a
  section that is no dict.
\<close>

definition set_nested ::
  "store \<Rightarrow> pval \<Rightarrow> string \<Rightarrow> string \<Rightarrow> pval \<Rightarrow> error + store" where
  "set_nested h config section key v =
     (case config of
        PRef c \<Rightarrow>
          (case dict_get h c section of
             None \<Rightarrow> Inl KeyError
           | Some (PRef t) \<Rightarrow> Inr (dict_set h t key v)
           | Some _ \<Rightarrow> Inl TypeError)
      | _ \<Rightarrow> Inl TypeError)"

text \<open>
  Each override is \<^verbatim>\<open>if os.getenv(var): config[section][key] = convert(os.getenv(var))\<close>;
  an unset variable and an empty one are both false. The right-hand side is evaluated
  first. An exception ends \<^verbatim>\<open>load_config\<close>, with the assignments made so far in place.
\<close>

fun apply_overrides ::
  "(string \<times> conversion \<times> string \<times> string) list \<Rightarrow> environ \<Rightarrow> pval \<Rightarrow> store \<Rightarrow>
   error option \<times> store" where
  "apply_overrides [] env config h = (None, h)"
| "apply_overrides ((var, conv, section, key) # rest) env config h =
     (case env var of
        None \<Rightarrow> apply_overrides rest env config h
      | Some s \<Rightarrow>
          if s = [] then apply_overrides rest env config h
          else
            (case convert conv s of
               Inl e \<Rightarrow> (Some e, h)
             | Inr v \<Rightarrow>
                 (case set_nested h config section key v of
                    Inl e \<Rightarrow> (Some e, h)
                  | Inr h' \<Rightarrow> apply_overrides rest env config h')))"

definition load_config ::
  "store \<Rightarrow> files \<Rightarrow> environ \<Rightarrow> string option \<Rightarrow> string option \<Rightarrow>
   (error + pval) \<times> store" where
  "load_config h fs env config_file message_types_file =
     (case deepcopy recursion_limit DEFAULT_CONFIG_obj (h, Map.empty) of
        None \<Rightarrow> (Inl RecursionError, h)
      | Some (config, (h0, memo)) \<Rightarrow>
          (let h1 = merge_config_file h0 config fs config_file;
               h2 = merge_message_types_file h1 config fs message_types_file
           in case apply_overrides overrides env config h2 of
                (Some e, h3) \<Rightarrow> (Inl e, h3)
              | (None, h3) \<Rightarrow> (Inr config, h3)))"

subsection \<open>\<^verbatim>\<open>get_message_type_description\<close>\<close>

text \<open>
  \<^verbatim>\<open>template.format(message_type=v)\<close> for a string \<open>v\<close>. The template is read from left
  to right: \<^verbatim>\<open>{{\<close> and \<^verbatim>\<open>}}\<close> are the two braces, a single \<^verbatim>\<open>}\<close> and an unclosed \<^verbatim>\<open>{\<close>
  raise \<^verbatim>\<open>ValueError\<close>, and \<^verbatim>\<open>{name}\<close> is replaced by the argument of that name. The only
  keyword argument is \<^verbatim>\<open>message_type\<close> and there are no positional ones: another name
  raises \<^verbatim>\<open>KeyError\<close>, an empty name or a number \<^verbatim>\<open>IndexError\<close> (a number beyond the
  index range of a 64-bit platform, \<^verbatim>\<open>ValueError\<close>). The first exception from the left is
  the one raised. A replacement field with a conversion (\<^verbatim>\<open>!\<close>), a format specification
  (\<^verbatim>\<open>:\<close>), an attribute (\<^verbatim>\<open>.\<close>) or an index (\<^verbatim>\<open>[\<close>) is outside the model: the result is then
  \<open>None\<close>.
\<close>

definition lookup_field :: "string \<Rightarrow> string \<Rightarrow> error + string" where
  "lookup_field name v =
     (if name = ''message_type'' then Inr v
      else if \<forall>c \<in> set name. is_digit c then
        (if dec_value name \<le> 2 ^ 63 - 1 then Inl IndexError else Inl ValueError)
      else Inl KeyError)"

definition prepend :: "string \<Rightarrow> (error + string) option \<Rightarrow> (error + string) option" where
  "prepend s r = (case r of Some (Inr t) \<Rightarrow> Some (Inr (s @ t)) | _ \<Rightarrow> r)"

fun format_from :: "string option \<Rightarrow> string \<Rightarrow> string \<Rightarrow> (error + string) option" where
  "format_from None [] v = Some (Inr [])"
| "format_from None (c # cs) v =
     (if c = CHR ''{'' then
        (case cs of
           [] \<Rightarrow> Some (Inl ValueError)
         | d # ds \<Rightarrow>
             if d = CHR ''{'' then prepend ''{'' (format_from None ds v)
             else format_from (Some []) cs v)
      else if c = CHR ''}'' then
        (case cs of
           [] \<Rightarrow> Some (Inl ValueError)
         | d # ds \<Rightarrow>
             if d = CHR ''}'' then prepend ''}'' (format_from None ds v)
             else Some (Inl ValueError))
      else prepend [c] (format_from None cs v))"
| "format_from (Some name) [] v = Some (Inl ValueError)"
| "format_from (Some name) (c # cs) v =
     (if c = CHR ''}'' then
        (case lookup_field (rev name) v of
           Inl e \<Rightarrow> Some (Inl e)
         | Inr s \<Rightarrow> prepend s (format_from None cs v))
      else if c = CHR ''{'' then Some (Inl ValueError)
      else if c \<in> set ''!:.['' then None
      else format_from (Some (c # name)) cs v)"

definition str_format :: "string \<Rightarrow> string \<Rightarrow> (error + string) option" where
  "str_format template v = format_from None template v"

text \<open>
  \<^verbatim>\<open>get_message_type_description\<close>. \<^verbatim>\<open>not msg_type\<close> holds for \<^verbatim>\<open>None\<close> and for the empty
  string. \<^verbatim>\<open>x.get\<close> raises \<^verbatim>\<open>AttributeError\<close> where \<open>x\<close> is no dict and \<^verbatim>\<open>x.format\<close> where
  \<open>x\<close> is no string; the default of the last \<^verbatim>\<open>get\<close> is evaluated before the table is
  looked at. A missing \<^verbatim>\<open>message_types\<close> is the empty table; the function changes nothing
  in the store. \<open>None\<close> is a template outside the model of \<open>str_format\<close>.
\<close>

definition get_message_type_description ::
  "store \<Rightarrow> pval \<Rightarrow> string option \<Rightarrow> (error + pval) option" where
  "get_message_type_description h config msg_type =
     (if msg_type = None \<or> msg_type = Some [] then Some (Inr (PStr ''Unknown message type''))
      else
        (case config of
           PRef c \<Rightarrow>
             (let message_types =
                    (case dict_get h c ''message_types'' of
                       None \<Rightarrow> Some []
                     | Some (PRef t) \<Rightarrow> Some (if t < length h then h ! t else [])
                     | Some _ \<Rightarrow> None);
                  default_format =
                    (case dict_get h c ''default_message_format'' of
                       None \<Rightarrow> PStr ''***Sent a {message_type}***''
                     | Some f \<Rightarrow> f)
              in case message_types of
                   None \<Rightarrow> Some (Inl AttributeError)
                 | Some table \<Rightarrow>
                     (case default_format of
                        PStr template \<Rightarrow>
                          (case str_format template (the msg_type) of
                             None \<Rightarrow> None
                           | Some (Inl e) \<Rightarrow> Some (Inl e)
                           | Some (Inr s) \<Rightarrow>
                               Some (Inr (case map_of table (the msg_type) of
                                            None \<Rightarrow> PStr s
                                          | Some description \<Rightarrow> description)))
                      | _ \<Rightarrow> Some (Inl AttributeError)))
         | _ \<Rightarrow> Some (Inl AttributeError)))"

text \<open>
  A template whose braces are only the doubled ones and those of the placeholder
  \<^verbatim>\<open>{message_type}\<close>.
\<close>

fun plain_template :: "string \<Rightarrow> bool" where
  "plain_template [] = True"
| "plain_template (c # cs) =
     (if c = CHR ''{'' then
        (take 13 cs = ''message_type}'' \<and> plain_template (drop 13 cs)) \<or>
        (take 1 cs = ''{'' \<and> plain_template (drop 1 cs))
      else if c = CHR ''}'' then take 1 cs = ''}'' \<and> plain_template (drop 1 cs)
      else plain_template cs)"

subsection \<open>Notions for the statements about \<^verbatim>\<open>config.py\<close>\<close>

text \<open>
  The dict \<^verbatim>\<open>DEFAULT_CONFIG[section]\<close> as the module builds it, and the keys of
  \<^verbatim>\<open>DEFAULT_CONFIG\<close> itself.
\<close>

definition default_dict :: "string \<Rightarrow> pdict" where
  "default_dict section =
     (case DEFAULT_CONFIG_obj of
        PRef r \<Rightarrow>
          (case dict_get module_store r section of
             Some (PRef t) \<Rightarrow> module_store ! t
           | _ \<Rightarrow> [])
      | _ \<Rightarrow> [])"

definition default_keys :: "string list" where
  "default_keys = (case DEFAULT_CONFIG of JObject kvs \<Rightarrow> map fst kvs | _ \<Rightarrow> [])"

text \<open>
  The objects a deep copy of \<^verbatim>\<open>DEFAULT_CONFIG\<close> adds to a store of \<open>n\<close> objects: the copy
  of the top-level dict, then those of the four sections.
\<close>

definition config_copy :: "nat \<Rightarrow> store" where
  "config_copy n =
     [[(''database'', PRef (n + 1)), (''output'', PRef (n + 2)), (''logging'', PRef (n + 3)),
       (''message_types'', PRef (n + 4)),
       (''default_message_format'', PStr ''***Sent a {message_type}***'')],
      default_dict ''database'', default_dict ''output'', default_dict ''logging'',
      default_dict ''message_types'']"

text \<open>
  The objects from address \<open>n\<close> on refer to objects from \<open>n\<close> on only: nothing reachable
  from them lies below \<open>n\<close>.
\<close>

definition fresh_closed :: "nat \<Rightarrow> store \<Rightarrow> bool" where
  "fresh_closed n h = (\<forall>a. n \<le> a \<and> a < length h \<longrightarrow> drefs (h ! a) \<subseteq> {n..<length h})"

text \<open>No object of the first store has lost a key in the second.\<close>

definition keys_kept :: "store \<Rightarrow> store \<Rightarrow> bool" where
  "keys_kept h h' =
     (length h \<le> length h' \<and> (\<forall>a < length h. fst ` set (h ! a) \<subseteq> fst ` set (h' ! a)))"

text \<open>
  The entries a file contributes: those of its document when the path is given, exists
  and loads as a dict, none otherwise. A document replaces a section when it gives the
  section's key a value that is no dict.
\<close>

definition file_entries :: "files \<Rightarrow> string option \<Rightarrow> (string \<times> json) list" where
  "file_entries fs p =
     (case p of
        None \<Rightarrow> []
      | Some q \<Rightarrow>
          if q = [] then []
          else (case fs q of Some (Inr (JObject source)) \<Rightarrow> source | _ \<Rightarrow> []))"

fun is_object :: "json \<Rightarrow> bool" where
  "is_object (JObject d) = True"
| "is_object v = False"

definition replaces :: "(string \<times> json) list \<Rightarrow> string \<Rightarrow> bool" where
  "replaces source section =
     list_ex (\<lambda>kv. fst kv = section \<and> \<not> is_object (snd kv)) source"


text \<open>
  Values that \<^verbatim>\<open>copy.deepcopy\<close> returns as they are, and dicts that hold only such values
  (under distinct keys).
\<close>

fun atomic :: "pval \<Rightarrow> bool" where
  "atomic (PRef a) = False"
| "atomic (PList xs) = False"
| "atomic v = True"

definition flat :: "pdict \<Rightarrow> bool" where
  "flat d = ((\<forall>kv \<in> set d. atomic (snd kv)) \<and> distinct (map fst d))"

text \<open>
  A config dict at address \<open>c\<close> whose contents lie above it: the objects after \<open>c\<close> are
  closed, and the dict refers to them only. The copy that \<^verbatim>\<open>load_config\<close> works on is of
  this kind, at every point of the function.
\<close>

definition rooted :: "addr \<Rightarrow> store \<Rightarrow> bool" where
  "rooted c h =
     (c < length h \<and> fresh_closed (Suc c) h \<and> drefs (h ! c) \<subseteq> {Suc c..<length h})"

text \<open>Sample environments and files.\<close>

definition sample_environ :: environ where
  "sample_environ = [''POSTGRES_PORT'' \<mapsto> ''6543'']"

definition sample_types_files :: files where
  "sample_types_files =
     [''types.json'' \<mapsto>
        Inr (JObject [(''message_types'', JObject [(''Custom/Type'', JStr ''***Custom***'')])])]"

definition sample_config_files :: files where
  "sample_config_files =
     [''config.json'' \<mapsto>
        Inr (JObject [(''database'', JObject [(''host'', JStr ''db.internal'')])])]"

definition sample_host_environ :: environ where
  "sample_host_environ = [''POSTGRES_HOST'' \<mapsto> ''db.example.org'']"

section \<open>Properties of \<^verbatim>\<open>file_handler.py\<close>\<close>

subsection \<open>What \<open>re_match\<close> decides\<close>

lemma nullable_lang: "nullable r \<longleftrightarrow> [] \<in> lang r"
  by (induction r) (auto intro: star.intros)

lemma star_cons:
  "c # u \<in> star A \<longleftrightarrow> (\<exists>v w. u = v @ w \<and> c # v \<in> A \<and> w \<in> star A)"
proof
  assume "c # u \<in> star A"
  then show "\<exists>v w. u = v @ w \<and> c # v \<in> A \<and> w \<in> star A"
  proof (induction "c # u" arbitrary: u rule: star.induct)
    case (star_app x y)
    then show ?case by (cases x) auto
  qed
next
  assume "\<exists>v w. u = v @ w \<and> c # v \<in> A \<and> w \<in> star A"
  then obtain v w where "u = v @ w" "c # v \<in> A" "w \<in> star A" by blast
  then show "c # u \<in> star A" using star_app [of "c # v" A w] by simp
qed

lemma lang_deriv: "u \<in> lang (deriv c r) \<longleftrightarrow> c # u \<in> lang r"
proof (induction r arbitrary: u)
  case (Seq r s)
  show ?case
    by (auto simp: Seq nullable_lang Cons_eq_append_conv append_eq_Cons_conv)
next
  case (Star r)
  show ?case by (auto simp: Star star_cons)
qed auto

lemma re_match_lang: "re_match r s \<longleftrightarrow> (\<exists>u v. s = u @ v \<and> u \<in> lang r)"
proof (induction s arbitrary: r)
  case Nil
  show ?case by (simp add: nullable_lang)
next
  case (Cons c cs)
  show ?case
    by (auto simp: Cons nullable_lang lang_deriv Cons_eq_append_conv)
qed

lemma star_dot: "u \<in> star (lang Dot) \<longleftrightarrow> CHR 0x0A \<notin> set u"
proof
  show "u \<in> star (lang Dot) \<Longrightarrow> CHR 0x0A \<notin> set u"
    by (induction rule: star.induct) auto
  show "CHR 0x0A \<notin> set u \<Longrightarrow> u \<in> star (lang Dot)"
  proof (induction u)
    case Nil
    show ?case by (rule star_nil)
  next
    case (Cons c u)
    then have "[c] \<in> lang Dot" and "u \<in> star (lang Dot)" by auto
    then have "[c] @ u \<in> star (lang Dot)" by (rule star_app)
    then show ?case by simp
  qed
qed

lemma lang_lit: "lang (lit s) = {s}"
  by (induction s) auto

text \<open>
  The pattern of \<^verbatim>\<open>read_tarfile\<close> accepts a name as soon as \<^verbatim>\<open>.json\<close> occurs in it with no
  newline before the occurrence; what follows the occurrence is not looked at.
\<close>

lemma re_match_json_pattern:
  "re_match json_pattern s \<longleftrightarrow> (\<exists>u v. s = u @ ''.json'' @ v \<and> CHR 0x0A \<notin> set u)"
proof -
  have "lang json_pattern = {u @ ''.json'' | u. CHR 0x0A \<notin> set u}"
    unfolding json_pattern_def lang.simps(5) lang_lit lang.simps(7) star_dot by blast
  then have "re_match json_pattern s \<longleftrightarrow>
      (\<exists>p v. s = p @ v \<and> (\<exists>u. p = u @ ''.json'' \<and> CHR 0x0A \<notin> set u))"
    unfolding re_match_lang by (simp del: lang.simps)
  also have "\<dots> \<longleftrightarrow> (\<exists>u v. s = u @ ''.json'' @ v \<and> CHR 0x0A \<notin> set u)"
    by (metis append_assoc)
  finally show ?thesis .
qed

subsection \<open>Concrete runs of the sample library\<close>

lemma sample_decode_true: "utf8_decode sample_lib [0x74, 0x72, 0x75, 0x65] = Inr ''true''"
  by code_simp

lemma sample_loads_true: "json_loads sample_lib ''true'' = Inr (JBool True)"
  by (simp add: sample_lib_def)



subsection \<open>Names that end with \<^verbatim>\<open>.json\<close>\<close>

lemma ends_with_json_iff: "ends_with_json n \<longleftrightarrow> (\<exists>p. n = p @ ''.json'')"
proof
  assume "ends_with_json n"
  then have a: "take 5 (rev n) = rev ''.json''" by (simp only: ends_with_json_def)
  have "rev n = take 5 (rev n) @ drop 5 (rev n)" by simp
  then have "rev n = rev ''.json'' @ drop 5 (rev n)" unfolding a .
  then have "n = rev (rev ''.json'' @ drop 5 (rev n))" by (simp only: rev_swap)
  then have e: "n = rev (drop 5 (rev n)) @ ''.json''" by (simp only: rev_rev_ident rev_append)
  show "\<exists>p. n = p @ ''.json''"
    by (rule exI [where x = "rev (drop 5 (rev n))"]) (rule e)
next
  assume "\<exists>p. n = p @ ''.json''"
  then show "ends_with_json n" by (auto simp: ends_with_json_def)
qed

subsection \<open>The candidates of \<^verbatim>\<open>read_tarfile\<close>\<close>

text \<open>
  C3. The claim: the names \<^verbatim>\<open>read_tarfile\<close> treats as JSON candidates are exactly those that
  end with \<^verbatim>\<open>.json\<close>, and \<^verbatim>\<open>a.json.bak\<close> is not one. The code filters with
  \<^verbatim>\<open>re.compile(r'.*\.json').match\<close>, which is not anchored at the end, under the comment
  ``Only get the files with .json extension'': in an archive whose only member is named
  \<^verbatim>\<open>a.json.bak\<close>, that member is a candidate.
\<close>

theorem json_candidates_not_suffix:
  "json_candidates [\<lparr>mname = ''a.json.bak'', mdata = Some []\<rparr>] = [''a.json.bak'']"
  by (simp add: json_candidates_def getnames_def getmembers_def json_pattern_def)

text \<open>
  With no candidate, \<^verbatim>\<open>read_tarfile\<close> raises \<^verbatim>\<open>IndexError\<close> whatever \<^verbatim>\<open>select_json\<close>,
  \<^verbatim>\<open>auto_select\<close> and the standard input are. The candidates are the names the pattern
  matches from their start.
\<close>

lemma read_tarfile_no_candidates:
  assumes "tar_open filename = Inr tar"
    and "\<forall>m \<in> set (getmembers tar). \<not> re_match json_pattern (mname m)"
  shows "read_tarfile lib tar_open stdin filename select_json auto_select = Inl IndexError"
proof -
  have "json_candidates tar = []"
    using assms(2) by (simp add: json_candidates_def getnames_def filter_empty_conv)
  then show ?thesis
    using assms(1) by (simp add: read_tarfile_def)
qed

text \<open>
  C5. The claim: for an archive in which no member is a JSON file, \<^verbatim>\<open>read_tarfile\<close> raises
  \<^verbatim>\<open>IndexError\<close> and returns no value; the docstring says the same,
  ``IndexError: If no JSON files are found in the tar''. In an archive whose only member
  is \<^verbatim>\<open>a.json.bak\<close> no name ends with \<^verbatim>\<open>.json\<close>, yet the unanchored pattern makes that
  member a candidate: \<^verbatim>\<open>read_tarfile\<close> returns the document the member holds, for every
  \<^verbatim>\<open>select_json\<close>, \<^verbatim>\<open>auto_select\<close> and standard input.
\<close>

theorem read_tarfile_reads_bak:
  assumes "utf8_decode lib bs = Inr s" and "json_loads lib s = Inr d"
  shows "filter (\<lambda>m. ends_with_json (mname m))
           (getmembers [\<lparr>mname = ''a.json.bak'', mdata = Some bs\<rparr>]) = [] \<and>
         read_tarfile lib (\<lambda>p. Inr [\<lparr>mname = ''a.json.bak'', mdata = Some bs\<rparr>]) stdin
           filename select_json auto_select = Inr d"
proof -
  let ?tar = "[\<lparr>mname = ''a.json.bak'', mdata = Some bs\<rparr>]"
  have c: "json_candidates ?tar = [''a.json.bak'']"
    by (simp add: json_candidates_def getnames_def getmembers_def json_pattern_def)
  have i: "select_index [''a.json.bak''] select_json auto_select stdin = Inr 0"
    by (simp add: select_index_def)
  have l: "load_member lib ?tar ''a.json.bak'' = Inr d"
    using assms by (simp add: load_member_def getmember_def getmembers_def rstrip_slash_def)
  show ?thesis
    by (simp add: read_tarfile_def c i l) (simp add: getmembers_def ends_with_json_def)
qed

theorem read_tarfile_reads_bak_witness:
  "filter (\<lambda>m. ends_with_json (mname m))
     (getmembers [\<lparr>mname = ''a.json.bak'', mdata = Some [0x74, 0x72, 0x75, 0x65]\<rparr>]) = [] \<and>
   read_tarfile sample_lib
     (\<lambda>p. Inr [\<lparr>mname = ''a.json.bak'', mdata = Some [0x74, 0x72, 0x75, 0x65]\<rparr>]) []
     ''export.tar'' None True = Inr (JBool True)"
  by (rule read_tarfile_reads_bak [OF sample_decode_true sample_loads_true])

subsection \<open>The member \<^verbatim>\<open>read_tarfile\<close> reads\<close>







subsection \<open>\<^verbatim>\<open>read_file_object\<close>\<close>



subsection \<open>\<^verbatim>\<open>extract_tar_contents\<close>\<close>

lemma update_key_set: "fst ` set (AList.update k v al) = insert k (fst ` set al)"
  using dom_update [of k v al] by (simp add: dom_map_of_conv_image_fst)

lemma extractall_keys:
  "fst ` set (extractall p ms d) = fst ` set d \<union> (\<lambda>m. path_join p (mname m)) ` set ms"
  unfolding extractall_def
  by (induction ms arbitrary: d) (simp_all add: update_key_set Un_commute insert_commute)

text \<open>
  C1. The claim: a member named with \<^verbatim>\<open>..\<close> segments is rejected before anything is
  extracted. \<^verbatim>\<open>extract_tar_contents\<close> has no check of member names: for an archive whose
  only member is \<^verbatim>\<open>../../etc/passwd\<close> and the output directory \<^verbatim>\<open>out\<close>, it returns the path
  \<^verbatim>\<open>out/../../etc/passwd\<close> and the member has been written there.
\<close>

theorem extract_tar_contents_traversal:
  "extract_tar_contents (\<lambda>p. Inr [\<lparr>mname = ''../../etc/passwd'', mdata = Some []\<rparr>]) []
     ''export.tar'' (Some ''out'') None =
   (Inr [''out/../../etc/passwd''], [(''out'', None), (''out/../../etc/passwd'', Some [])])"
  by (simp add: extract_tar_contents_def getmembers_def extractall_def makedirs_def
      path_join_def)

text \<open>
  C1, as amended. \<^verbatim>\<open>extract_tar_contents\<close> selects members by the pattern alone (all of
  them without a pattern) and never by the shape of their names: for an archive that opens
  and a non-empty output directory it returns \<^verbatim>\<open>os.path.join(output_dir, name)\<close> for every
  selected member, and each of these paths has been written; without an output
  directory it returns the selected names and writes nothing.
\<close>

theorem extract_tar_contents_no_name_check:
  assumes "tar_open tar_filename = Inr tar"
    and "members = (case file_pattern of
                      None \<Rightarrow> getmembers tar
                    | Some pattern \<Rightarrow> filter (\<lambda>m. re_match pattern (mname m)) (getmembers tar))"
    and "out \<noteq> []"
  shows "fst (extract_tar_contents tar_open d tar_filename (Some out) file_pattern) =
           Inr (map (\<lambda>m. path_join out (mname m)) members) \<and>
         (\<forall>m \<in> set members.
            path_join out (mname m) \<in>
              fst ` set (snd (extract_tar_contents tar_open d tar_filename (Some out) file_pattern))) \<and>
         extract_tar_contents tar_open d tar_filename None file_pattern =
           (Inr (map mname members), d)"
  using assms extractall_keys [of out members "makedirs out d"]
  by (auto simp: extract_tar_contents_def Let_def)

theorem extract_tar_contents_no_name_check_witness:
  "fst (extract_tar_contents
          (\<lambda>p. Inr [\<lparr>mname = ''../x.json'', mdata = Some []\<rparr>, \<lparr>mname = ''y.txt'', mdata = None\<rparr>])
          [] ''export.tar'' (Some ''out'') (Some json_pattern)) = Inr [''out/../x.json''] \<and>
   ''out/../x.json'' \<in> fst ` set (snd (extract_tar_contents
          (\<lambda>p. Inr [\<lparr>mname = ''../x.json'', mdata = Some []\<rparr>, \<lparr>mname = ''y.txt'', mdata = None\<rparr>])
          [] ''export.tar'' (Some ''out'') (Some json_pattern)))"
  using extract_tar_contents_no_name_check
    [of "\<lambda>p. Inr [\<lparr>mname = ''../x.json'', mdata = Some []\<rparr>, \<lparr>mname = ''y.txt'', mdata = None\<rparr>]"
        "''export.tar''"
        "[\<lparr>mname = ''../x.json'', mdata = Some []\<rparr>, \<lparr>mname = ''y.txt'', mdata = None\<rparr>]"
        "[\<lparr>mname = ''../x.json'', mdata = Some []\<rparr>]" "Some json_pattern" "''out''" "[]"]
  by (simp add: getmembers_def json_pattern_def path_join_def)

section \<open>Properties of \<^verbatim>\<open>config.py\<close>\<close>

subsection \<open>The store of the module\<close>

lemma module_store_eq:
  "module_store =
    [[(''host'', PStr ''localhost''), (''port'', PInt 5432),
      (''dbname'', PStr ''skype_archive''), (''user'', PStr ''postgres''),
      (''password'', PStr [])],
     [(''directory'', PStr ''output''), (''overwrite'', PBool False)],
     [(''level'', PStr ''INFO''), (''file'', PNone)],
     [(''Event/Call'', PStr ''***A call started/ended***''),
      (''Poll'', PStr ''***Created a poll***''),
      (''RichText/Media_Album'', PStr ''***Sent an album of images***''),
      (''RichText/Media_AudioMsg'', PStr ''***Sent a voice message***''),
      (''RichText/Media_CallRecording'', PStr ''***Sent a call recording***''),
      (''RichText/Media_Card'', PStr ''***Sent a media card***''),
      (''RichText/Media_FlikMsg'', PStr ''***Sent a moji***''),
      (''RichText/Media_GenericFile'', PStr ''***Sent a file***''),
      (''RichText/Media_Video'', PStr ''***Sent a video message***''),
      (''RichText/UriObject'', PStr ''***Sent a photo***''),
      (''RichText/ScheduledCallInvite'', PStr ''***Scheduled a call***''),
      (''RichText/Location'', PStr ''***Sent a location***''),
      (''RichText/Contacts'', PStr ''***Sent a contact***'')],
     [(''database'', PRef 0), (''output'', PRef 1), (''logging'', PRef 2),
      (''message_types'', PRef 3),
      (''default_message_format'', PStr ''***Sent a {message_type}***'')]]"
  by (simp add: module_store_def DEFAULT_CONFIG_def)

lemma DEFAULT_CONFIG_obj_eq: "DEFAULT_CONFIG_obj = PRef 4"
  by (simp add: DEFAULT_CONFIG_obj_def DEFAULT_CONFIG_def)

lemma default_dict_message_types:
  "default_dict ''message_types'' =
     [(''Event/Call'', PStr ''***A call started/ended***''),
      (''Poll'', PStr ''***Created a poll***''),
      (''RichText/Media_Album'', PStr ''***Sent an album of images***''),
      (''RichText/Media_AudioMsg'', PStr ''***Sent a voice message***''),
      (''RichText/Media_CallRecording'', PStr ''***Sent a call recording***''),
      (''RichText/Media_Card'', PStr ''***Sent a media card***''),
      (''RichText/Media_FlikMsg'', PStr ''***Sent a moji***''),
      (''RichText/Media_GenericFile'', PStr ''***Sent a file***''),
      (''RichText/Media_Video'', PStr ''***Sent a video message***''),
      (''RichText/UriObject'', PStr ''***Sent a photo***''),
      (''RichText/ScheduledCallInvite'', PStr ''***Scheduled a call***''),
      (''RichText/Location'', PStr ''***Sent a location***''),
      (''RichText/Contacts'', PStr ''***Sent a contact***'')]"
  by (simp add: default_dict_def DEFAULT_CONFIG_obj_eq module_store_eq dict_get_def)

lemma default_dict_eqs:
  "default_dict ''database'' = module_store ! 0"
  "default_dict ''output'' = module_store ! 1"
  "default_dict ''logging'' = module_store ! 2"
  "default_dict ''message_types'' = module_store ! 3"
  by (simp_all add: default_dict_def DEFAULT_CONFIG_obj_eq module_store_eq dict_get_def)

lemma installed_nth:
  assumes "installed h"
  shows "5 \<le> length h" and "h ! 0 = module_store ! 0" and "h ! 1 = module_store ! 1"
    and "h ! 2 = module_store ! 2" and "h ! 3 = module_store ! 3" and "h ! 4 = module_store ! 4"
proof -
  have l: "length module_store = 5" by (simp add: module_store_eq)
  from assms have t: "take 5 h = module_store" by (simp add: installed_def l)
  then have "length (take 5 h) = 5" using l by simp
  then show "5 \<le> length h" by simp
  have "\<And>i. i < 5 \<Longrightarrow> h ! i = module_store ! i"
    using t nth_take [of _ 5 h] by metis
  then show "h ! 0 = module_store ! 0" "h ! 1 = module_store ! 1"
    "h ! 2 = module_store ! 2" "h ! 3 = module_store ! 3" "h ! 4 = module_store ! 4"
    by simp_all
qed

subsection \<open>\<^verbatim>\<open>get_message_type_description\<close>\<close>

lemma str_format_default:
  "str_format ''***Sent a {message_type}***'' k = Some (Inr (''***Sent a '' @ k @ ''***''))"
  by (simp add: str_format_def lookup_field_def prepend_def)

text \<open>
  C7. For a config that carries the default \<^verbatim>\<open>message_types\<close> table and the default
  \<^verbatim>\<open>default_message_format\<close>, \<^verbatim>\<open>get_message_type_description\<close> returns
  \<^verbatim>\<open>"Unknown message type"\<close> for a message type that is \<^verbatim>\<open>None\<close> or empty, the table's
  description for a key of the table, and the default format with the message type
  substituted for any other message type.
\<close>

theorem describe_default:
  assumes "dict_get h c ''message_types'' = Some (PRef t)"
    and "t < length h"
    and "h ! t = default_dict ''message_types''"
    and "dict_get h c ''default_message_format'' = Some (PStr ''***Sent a {message_type}***'')"
  shows "get_message_type_description h (PRef c) None = Some (Inr (PStr ''Unknown message type'')) \<and>
         get_message_type_description h (PRef c) (Some []) = Some (Inr (PStr ''Unknown message type'')) \<and>
         (\<forall>k v. k \<noteq> [] \<and> map_of (default_dict ''message_types'') k = Some v \<longrightarrow>
            get_message_type_description h (PRef c) (Some k) = Some (Inr v)) \<and>
         (\<forall>k. k \<noteq> [] \<and> map_of (default_dict ''message_types'') k = None \<longrightarrow>
            get_message_type_description h (PRef c) (Some k) =
              Some (Inr (PStr (''***Sent a '' @ k @ ''***''))))"
  using assms
  by (simp add: get_message_type_description_def str_format_default)

theorem describe_default_witness:
  "get_message_type_description module_store DEFAULT_CONFIG_obj (Some ''RichText/Location'') =
     Some (Inr (PStr ''***Sent a location***'')) \<and>
   get_message_type_description module_store DEFAULT_CONFIG_obj (Some ''Totally/Unknown'') =
     Some (Inr (PStr ''***Sent a Totally/Unknown***'')) \<and>
   get_message_type_description module_store DEFAULT_CONFIG_obj (Some []) =
     Some (Inr (PStr ''Unknown message type''))"
proof -
  have "dict_get module_store 4 ''message_types'' = Some (PRef 3)"
    and "3 < length module_store"
    and "module_store ! 3 = default_dict ''message_types''"
    and "dict_get module_store 4 ''default_message_format'' =
           Some (PStr ''***Sent a {message_type}***'')"
    by (simp_all add: default_dict_eqs) (simp_all add: module_store_eq dict_get_def)
  from describe_default [OF this] show ?thesis
    by (simp add: DEFAULT_CONFIG_obj_eq default_dict_message_types)
qed

lemma format_from_field:
  "format_from None (CHR ''{'' # ''message_type}'' @ rest) v = prepend v (format_from None rest v)"
  by (simp add: lookup_field_def)

lemma prepend_Inr: "r = Some (Inr s) \<Longrightarrow> prepend p r = Some (Inr (p @ s))"
  by (simp add: prepend_def)

lemma plain_template_format:
  "plain_template f \<Longrightarrow> \<exists>s. format_from None f v = Some (Inr s)"
proof (induction f rule: plain_template.induct)
  case 1
  show ?case by simp
next
  case (2 c cs)
  show ?case
  proof (cases "c = CHR ''{''")
    case True
    with "2.prems" consider
        (field) "take 13 cs = ''message_type}''" "plain_template (drop 13 cs)"
      | (brace) "take 1 cs = ''{''" "plain_template (drop 1 cs)"
      by auto
    then show ?thesis
    proof cases
      case field
      with "2.IH"(1) True obtain s where s: "format_from None (drop 13 cs) v = Some (Inr s)"
        by blast
      have "format_from None (c # take 13 cs @ drop 13 cs) v =
              prepend v (format_from None (drop 13 cs) v)"
        unfolding True field(1) by (rule format_from_field)
      then have "format_from None (c # cs) v = prepend v (format_from None (drop 13 cs) v)"
        by (simp only: append_take_drop_id)
      then show ?thesis using s by (simp add: prepend_Inr)
    next
      case brace
      with "2.IH"(2) True obtain s where s: "format_from None (drop 1 cs) v = Some (Inr s)"
        by blast
      have "format_from None (c # take 1 cs @ drop 1 cs) v =
              prepend ''{'' (format_from None (drop 1 cs) v)"
        unfolding True brace(1) by simp
      then have "format_from None (c # cs) v = prepend ''{'' (format_from None (drop 1 cs) v)"
        by (simp only: append_take_drop_id)
      then show ?thesis using s by (simp add: prepend_Inr)
    qed
  next
    case False
    note nl = False
    show ?thesis
    proof (cases "c = CHR ''}''")
      case True
      with "2.prems" nl have t: "take 1 cs = ''}''" and p: "plain_template (drop 1 cs)"
        by auto
      with "2.IH"(3) nl True obtain s where s: "format_from None (drop 1 cs) v = Some (Inr s)"
        by blast
      have "format_from None (c # take 1 cs @ drop 1 cs) v =
              prepend ''}'' (format_from None (drop 1 cs) v)"
        unfolding True t by simp
      then have "format_from None (c # cs) v = prepend ''}'' (format_from None (drop 1 cs) v)"
        by (simp only: append_take_drop_id)
      then show ?thesis using s by (simp add: prepend_Inr)
    next
      case False
      with "2.prems" nl have "plain_template cs" by simp
      with "2.IH"(4) nl False obtain s where "format_from None cs v = Some (Inr s)"
        by blast
      then show ?thesis using nl False by (simp add: prepend_Inr)
    qed
  qed
qed

lemma prepend_Inr_D: "prepend p r = Some (Inr s) \<Longrightarrow> \<exists>s'. r = Some (Inr s')"
  by (auto simp: prepend_def split: option.splits sum.splits)

lemma lookup_field_Inr: "lookup_field name v = Inr s \<Longrightarrow> name = ''message_type''"
  by (simp add: lookup_field_def split: if_splits)

lemma plain_template_field: "plain_template rest \<Longrightarrow> plain_template (CHR ''{'' # ''message_type}'' @ rest)"
  by simp

lemma format_from_plain:
  "format_from st cs v = Some (Inr s) \<Longrightarrow>
   (case st of
      None \<Rightarrow> plain_template cs
    | Some name \<Rightarrow> \<exists>rest. rev name @ cs = ''message_type}'' @ rest \<and> plain_template rest)"
proof (induction st cs v arbitrary: s rule: format_from.induct)
  case (1 v)
  show ?case by simp
next
  case (2 c cs v)
  show ?case
  proof (cases "c = CHR ''{''")
    case True
    note open_brace = True
    show ?thesis
    proof (cases cs)
      case Nil
      with "2.prems" True show ?thesis by simp
    next
      case (Cons d ds)
      show ?thesis
      proof (cases "d = CHR ''{''")
        case True
        with "2.prems" open_brace Cons obtain s' where "format_from None ds v = Some (Inr s')"
          by (auto dest: prepend_Inr_D)
        with "2.IH"(1) [OF open_brace Cons True] have "plain_template ds" by simp
        then show ?thesis using open_brace Cons True by simp
      next
        case False
        with "2.prems" open_brace Cons have "format_from (Some []) cs v = Some (Inr s)" by simp
        with "2.IH"(2) [OF open_brace Cons False] obtain rest where
          r: "cs = ''message_type}'' @ rest" "plain_template rest" by auto
        have "plain_template (CHR ''{'' # ''message_type}'' @ rest)"
          using r(2) by (rule plain_template_field)
        then show ?thesis unfolding open_brace r(1) by (simp only: option.case)
      qed
    qed
  next
    case False
    note no_open = False
    show ?thesis
    proof (cases "c = CHR ''}''")
      case True
      show ?thesis
      proof (cases cs)
        case Nil
        with "2.prems" True show ?thesis by simp
      next
        case (Cons d ds)
        show ?thesis
        proof (cases "d = CHR ''}''")
          case d: True
          with "2.prems" True Cons obtain s' where "format_from None ds v = Some (Inr s')"
            by (auto dest: prepend_Inr_D)
          with "2.IH"(3) [OF no_open True Cons d] have "plain_template ds" by simp
          then show ?thesis using True Cons d by simp
        next
          case False
          with "2.prems" True Cons show ?thesis by simp
        qed
      qed
    next
      case False
      with "2.prems" no_open obtain s' where "format_from None cs v = Some (Inr s')"
        by (auto dest: prepend_Inr_D)
      with "2.IH"(4) [OF no_open False] have "plain_template cs" by simp
      then show ?thesis using no_open False by simp
    qed
  qed
next
  case (3 name v)
  then show ?case by simp
next
  case (4 name c cs v)
  show ?case
  proof (cases "c = CHR ''}''")
    case True
    with "4.prems" obtain s1 s2 where l: "lookup_field (rev name) v = Inr s1"
      and f: "format_from None cs v = Some (Inr s2)"
      by (auto split: sum.splits dest: prepend_Inr_D)
    from "4.IH"(1) [OF True l f] have "plain_template cs" by simp
    moreover have "rev name = ''message_type''" using l by (rule lookup_field_Inr)
    ultimately show ?thesis using True by simp
  next
    case False
    with "4.prems" have n: "c \<noteq> CHR ''{''" "c \<notin> set ''!:.[''"
      and f: "format_from (Some (c # name)) cs v = Some (Inr s)"
      by (auto split: if_splits)
    from "4.IH"(2) [OF False n f] show ?thesis by simp
  qed
qed

lemma str_format_plain: "str_format f v = Some (Inr s) \<Longrightarrow> plain_template f"
  using format_from_plain [of None f v s] by (simp add: str_format_def)

text \<open>
  C4. The claim: \<^verbatim>\<open>get_message_type_description\<close> never raises, whatever the table and the
  format string are. The default of the last \<^verbatim>\<open>get\<close>, \<^verbatim>\<open>default_format.format(...)\<close>, is
  evaluated for every message type: with the format string \<^verbatim>\<open>"{"\<close> the function raises
  \<^verbatim>\<open>ValueError\<close>, even for a message type that the table has.
\<close>

theorem describe_raises:
  "get_message_type_description
     [[(''RichText/Location'', PStr ''***Sent a location***'')],
      [(''message_types'', PRef 0), (''default_message_format'', PStr ''{'')]]
     (PRef 1) (Some ''RichText/Location'') = Some (Inl ValueError)"
  by (simp add: get_message_type_description_def dict_get_def str_format_def)

text \<open>
  C4, as amended. For a config dict whose \<^verbatim>\<open>message_types\<close> is absent or a dict, and whose
  \<^verbatim>\<open>default_message_format\<close> is absent or a string \<open>f\<close>:
  \<^verbatim>\<open>get_message_type_description\<close> returns \<^verbatim>\<open>"Unknown message type"\<close> for a message type
  that is \<^verbatim>\<open>None\<close> or empty, whatever \<open>f\<close> is. For any other message type \<open>m\<close> it renders
  \<open>f\<close> first, whether the table has \<open>m\<close> or not: it returns a value when
  \<^verbatim>\<open>f.format(message_type=m)\<close> returns, and raises the exception of that call when it
  raises. The call returns when braces occur in \<open>f\<close> only doubled or as the placeholder
  \<^verbatim>\<open>{message_type}\<close>; among the format strings of the model of \<^verbatim>\<open>str.format\<close> (those whose
  replacement fields have no conversion, format specification, attribute or index) it
  raises for every other one.
\<close>

theorem describe_total:
  assumes "dict_get h c ''message_types'' = None \<or>
           (\<exists>t. dict_get h c ''message_types'' = Some (PRef t))"
    and "dict_get h c ''default_message_format'' = None \<and> f = ''***Sent a {message_type}***'' \<or>
         dict_get h c ''default_message_format'' = Some (PStr f)"
  shows "get_message_type_description h (PRef c) None =
           Some (Inr (PStr ''Unknown message type'')) \<and>
         get_message_type_description h (PRef c) (Some []) =
           Some (Inr (PStr ''Unknown message type'')) \<and>
         (m \<noteq> [] \<longrightarrow>
            (\<forall>s. str_format f m = Some (Inr s) \<longrightarrow>
               (\<exists>v. get_message_type_description h (PRef c) (Some m) = Some (Inr v))) \<and>
            (\<forall>e. str_format f m = Some (Inl e) \<longrightarrow>
               get_message_type_description h (PRef c) (Some m) = Some (Inl e)) \<and>
            (plain_template f \<longrightarrow>
               (\<exists>v. get_message_type_description h (PRef c) (Some m) = Some (Inr v))) \<and>
            (\<not> plain_template f \<longrightarrow> str_format f m \<noteq> None \<longrightarrow>
               (\<exists>e. get_message_type_description h (PRef c) (Some m) = Some (Inl e))))"
proof (intro conjI impI allI)
  show "get_message_type_description h (PRef c) None = Some (Inr (PStr ''Unknown message type''))"
    by (simp add: get_message_type_description_def)
  show "get_message_type_description h (PRef c) (Some []) =
          Some (Inr (PStr ''Unknown message type''))"
    by (simp add: get_message_type_description_def)
next
  have f: "(case dict_get h c ''default_message_format'' of
              None \<Rightarrow> PStr ''***Sent a {message_type}***'' | Some f \<Rightarrow> f) = PStr f"
    using assms(2) by auto
  obtain table where t: "(case dict_get h c ''message_types'' of
                       None \<Rightarrow> Some []
                     | Some (PRef t) \<Rightarrow> Some (if t < length h then h ! t else [])
                     | Some _ \<Rightarrow> None) = Some table"
    using assms(1) by auto
  have d: "get_message_type_description h (PRef c) (Some m) =
       (case str_format f m of
          None \<Rightarrow> None
        | Some (Inl e) \<Rightarrow> Some (Inl e)
        | Some (Inr s) \<Rightarrow>
            Some (Inr (case map_of table m of None \<Rightarrow> PStr s | Some description \<Rightarrow> description)))"
    if "m \<noteq> []"
    using that
    by (simp add: get_message_type_description_def f t split: option.splits sum.splits)
  {
    fix s assume m: "m \<noteq> []" and "str_format f m = Some (Inr s)"
    then show "\<exists>v. get_message_type_description h (PRef c) (Some m) = Some (Inr v)"
      by (simp add: d [OF m])
  }
  {
    assume m: "m \<noteq> []" and p: "plain_template f"
    from plain_template_format [OF p] obtain s where "str_format f m = Some (Inr s)"
      unfolding str_format_def by blast
    then show "\<exists>v. get_message_type_description h (PRef c) (Some m) = Some (Inr v)"
      by (simp add: d [OF m])
  }
  {
    fix e assume m: "m \<noteq> []" and "str_format f m = Some (Inl e)"
    then show "get_message_type_description h (PRef c) (Some m) = Some (Inl e)"
      by (simp add: d [OF m])
  }
  {
    assume m: "m \<noteq> []" and np: "\<not> plain_template f" and "str_format f m \<noteq> None"
    then obtain r where r: "str_format f m = Some r" by auto
    have "\<exists>e. r = Inl e"
    proof (cases r)
      case (Inl e)
      then show ?thesis by simp
    next
      case (Inr s)
      with r have "plain_template f" by (auto intro: str_format_plain)
      with np show ?thesis by simp
    qed
    then show "\<exists>e. get_message_type_description h (PRef c) (Some m) = Some (Inl e)"
      using r by (auto simp: d [OF m])
  }
qed

theorem describe_total_witness:
  "get_message_type_description module_store (PRef 4) None =
     Some (Inr (PStr ''Unknown message type'')) \<and>
   (\<exists>v. get_message_type_description module_store (PRef 4) (Some ''Totally/Unknown'') =
          Some (Inr v)) \<and>
   (\<exists>e. get_message_type_description
          [[(''Poll'', PStr ''***Created a poll***'')],
           [(''message_types'', PRef 0), (''default_message_format'', PStr ''{x}'')]]
          (PRef 1) (Some ''Poll'') = Some (Inl e))"
proof -
  let ?h = "[[(''Poll'', PStr ''***Created a poll***'')],
             [(''message_types'', PRef 0), (''default_message_format'', PStr ''{x}'')]]"
  have 1: "dict_get module_store 4 ''message_types'' = None \<or>
        (\<exists>t. dict_get module_store 4 ''message_types'' = Some (PRef t))"
    by (simp add: module_store_eq dict_get_def)
  have 2: "dict_get module_store 4 ''default_message_format'' = None \<and>
           ''***Sent a {message_type}***'' = ''***Sent a {message_type}***'' \<or>
         dict_get module_store 4 ''default_message_format'' =
           Some (PStr ''***Sent a {message_type}***'')"
    by (simp add: module_store_eq dict_get_def)
  have 3: "dict_get ?h 1 ''message_types'' = None \<or>
        (\<exists>t. dict_get ?h 1 ''message_types'' = Some (PRef t))"
    by (simp add: dict_get_def)
  have 4: "dict_get ?h 1 ''default_message_format'' = None \<and> ''{x}'' = ''***Sent a {message_type}***'' \<or>
         dict_get ?h 1 ''default_message_format'' = Some (PStr ''{x}'')"
    by (simp add: dict_get_def)
  have 5: "str_format ''{x}'' ''Poll'' \<noteq> None"
    by (simp add: str_format_def lookup_field_def is_digit_def)
  from describe_total [OF 1 2, of "''Totally/Unknown''"] describe_total [OF 3 4, of "''Poll''"] 5
  show ?thesis by simp
qed

subsection \<open>Updates of the store\<close>

subsection \<open>dict_set and dict_get\<close>

lemma dict_set_length [simp]: "length (dict_set h a k v) = length h"
  by (simp add: dict_set_def)

lemma dict_set_nth:
  "dict_set h a k v ! b = (if b = a \<and> a < length h then AList.update k v (h ! a) else h ! b)"
  by (cases "a < length h") (auto simp: dict_set_def nth_list_update list_update_beyond)

lemma dict_get_dict_set:
  "dict_get (dict_set h a k v) b k' =
     (if b = a \<and> k' = k \<and> a < length h then Some v else dict_get h b k')"
  by (auto simp: dict_get_def dict_set_nth update_conv')

lemma take_dict_set: "n \<le> a \<Longrightarrow> take n (dict_set h a k v) = take n h"
  by (simp add: dict_set_def)

lemma update_entries: "set (AList.update k v d) \<subseteq> insert (k, v) (set d)"
  by (induction d) auto

lemma drefs_update: "drefs (AList.update k v d) \<subseteq> drefs d \<union> refs v"
  using update_entries [of k v d] by (fastforce simp: drefs_def)

subsection \<open>fresh_closed\<close>

lemma fresh_closed_dict_set:
  assumes "fresh_closed n h" and "refs v \<subseteq> {n..<length h}"
  shows "fresh_closed n (dict_set h a k v)"
  unfolding fresh_closed_def
proof (intro allI impI)
  fix b assume b: "n \<le> b \<and> b < length (dict_set h a k v)"
  then have old: "drefs (h ! b) \<subseteq> {n..<length h}"
    using assms(1) by (simp add: fresh_closed_def)
  show "drefs (dict_set h a k v ! b) \<subseteq> {n..<length (dict_set h a k v)}"
    using old assms(2) drefs_update [of k v "h ! b"] by (auto simp: dict_set_nth)
qed

lemma fresh_closed_append:
  assumes "fresh_closed n h" and "n \<le> length h"
    and "\<forall>d \<in> set ext. drefs d \<subseteq> {n..<length h + length ext}"
  shows "fresh_closed n (h @ ext)"
  unfolding fresh_closed_def
proof (intro allI impI)
  fix a assume a: "n \<le> a \<and> a < length (h @ ext)"
  show "drefs ((h @ ext) ! a) \<subseteq> {n..<length (h @ ext)}"
  proof (cases "a < length h")
    case True
    then have "drefs (h ! a) \<subseteq> {n..<length h}"
      using a assms(1) by (simp add: fresh_closed_def)
    then show ?thesis using True by (auto simp: nth_append)
  next
    case False
    then have "a - length h < length ext" using a by auto
    then have "ext ! (a - length h) \<in> set ext" by (rule nth_mem)
    then have "(h @ ext) ! a \<in> set ext"
      using False by (simp add: nth_append)
    then show ?thesis using assms(3) by auto
  qed
qed

subsection \<open>alloc\<close>

lemma alloc_ext:
  "\<exists>ext. snd (alloc j h) = h @ ext \<and>
     refs (fst (alloc j h)) \<subseteq> {length h..<length h + length ext} \<and>
     (\<forall>d \<in> set ext. drefs d \<subseteq> {length h..<length h + length ext})"
  and alloc_list_ext:
  "\<exists>ext. snd (alloc_list xs h) = h @ ext \<and>
     (\<forall>y \<in> set (fst (alloc_list xs h)). refs y \<subseteq> {length h..<length h + length ext}) \<and>
     (\<forall>d \<in> set ext. drefs d \<subseteq> {length h..<length h + length ext})"
  and alloc_items_ext:
  "\<exists>ext. snd (alloc_items kvs h) = h @ ext \<and>
     drefs (fst (alloc_items kvs h)) \<subseteq> {length h..<length h + length ext} \<and>
     (\<forall>d \<in> set ext. drefs d \<subseteq> {length h..<length h + length ext})"
proof (induction j h and xs h and kvs h rule: alloc_alloc_list_alloc_items.induct)
  case (6 xs h)
  then obtain ext where "snd (alloc_list xs h) = h @ ext"
    "\<forall>y \<in> set (fst (alloc_list xs h)). refs y \<subseteq> {length h..<length h + length ext}"
    "\<forall>d \<in> set ext. drefs d \<subseteq> {length h..<length h + length ext}" by blast
  then show ?case
    by (intro exI [of _ ext]) (auto simp: split_beta)
next
  case (7 kvs h)
  then obtain ext where e: "snd (alloc_items kvs h) = h @ ext"
    "drefs (fst (alloc_items kvs h)) \<subseteq> {length h..<length h + length ext}"
    "\<forall>d \<in> set ext. drefs d \<subseteq> {length h..<length h + length ext}" by blast
  have "\<forall>d \<in> set (ext @ [fst (alloc_items kvs h)]).
          drefs d \<subseteq> {length h..<length h + length (ext @ [fst (alloc_items kvs h)])}"
    using e(2,3) by fastforce
  then show ?case
    using e(1) by (intro exI [of _ "ext @ [fst (alloc_items kvs h)]"]) (simp add: split_beta)
next
  case (9 x xs h)
  obtain y h1 where a: "alloc x h = (y, h1)" by fastforce
  obtain ys h2 where b: "alloc_list xs h1 = (ys, h2)" by fastforce
  from "9.IH"(1) a obtain e1 where e1: "h1 = h @ e1"
    "refs y \<subseteq> {length h..<length h + length e1}"
    "\<forall>d \<in> set e1. drefs d \<subseteq> {length h..<length h + length e1}" by auto
  from "9.IH"(2) [OF a [symmetric]] b obtain e2 where e2: "h2 = h1 @ e2"
    "\<forall>y \<in> set ys. refs y \<subseteq> {length h1..<length h1 + length e2}"
    "\<forall>d \<in> set e2. drefs d \<subseteq> {length h1..<length h1 + length e2}" by auto
  show ?case
    using a b e1 e2 by (intro exI [of _ "e1 @ e2"]) (fastforce simp: split_beta)
next
  case (11 k v kvs h)
  obtain y h1 where a: "alloc v h = (y, h1)" by fastforce
  obtain d h2 where b: "alloc_items kvs h1 = (d, h2)" by fastforce
  from "11.IH"(1) a obtain e1 where e1: "h1 = h @ e1"
    "refs y \<subseteq> {length h..<length h + length e1}"
    "\<forall>d \<in> set e1. drefs d \<subseteq> {length h..<length h + length e1}" by auto
  from "11.IH"(2) [OF a [symmetric]] b obtain e2 where e2: "h2 = h1 @ e2"
    "drefs d \<subseteq> {length h1..<length h1 + length e2}"
    "\<forall>d \<in> set e2. drefs d \<subseteq> {length h1..<length h1 + length e2}" by auto
  show ?case
    using a b e1 e2 by (intro exI [of _ "e1 @ e2"]) (fastforce simp: split_beta drefs_def)
qed (simp_all add: drefs_def)

lemma alloc_frame:
  assumes "fresh_closed n h" and "n \<le> length h" and "alloc j h = (v, h')"
  shows "fresh_closed n h'" and "take n h' = take n h" and "length h \<le> length h'"
    and "refs v \<subseteq> {n..<length h'}" and "\<forall>a < length h. h' ! a = h ! a"
proof -
  from alloc_ext [of j h] assms(3) obtain ext where e: "h' = h @ ext"
    "refs v \<subseteq> {length h..<length h + length ext}"
    "\<forall>d \<in> set ext. drefs d \<subseteq> {length h..<length h + length ext}" by auto
  have "\<forall>d \<in> set ext. drefs d \<subseteq> {n..<length h + length ext}"
    using e(3) assms(2) by fastforce
  then show "fresh_closed n h'"
    unfolding e(1) using assms(1,2) by (rule fresh_closed_append [rotated 2])
  show "take n h' = take n h" using e(1) assms(2) by simp
  show "length h \<le> length h'" using e(1) by simp
  show "refs v \<subseteq> {n..<length h'}" using e(1,2) assms(2) by fastforce
  show "\<forall>a < length h. h' ! a = h ! a" using e(1) by (simp add: nth_append)
qed

lemma assign_frame:
  assumes "fresh_closed n h" and "n \<le> target" and "target < length h"
  shows "fresh_closed n (assign h target key val)"
    and "take n (assign h target key val) = take n h"
    and "length h \<le> length (assign h target key val)"
proof -
  obtain v h' where a: "alloc val h = (v, h')" by fastforce
  from assms have n: "n \<le> length h" by simp
  note f = alloc_frame [OF assms(1) n a]
  show "fresh_closed n (assign h target key val)"
    using f(1,4) a by (simp add: assign_def fresh_closed_dict_set)
  show "take n (assign h target key val) = take n h"
    using f(2) a assms(2) by (simp add: assign_def take_dict_set)
  show "length h \<le> length (assign h target key val)"
    using f(3) a by (simp add: assign_def)
qed

lemma fresh_closed_ref:
  assumes "fresh_closed n h" and "n \<le> a" and "dict_get h a k = Some (PRef t)"
  shows "n \<le> t \<and> t < length h"
proof -
  from assms(3) have a: "a < length h" and m: "map_of (h ! a) k = Some (PRef t)"
    by (auto simp: dict_get_def split: if_splits)
  from m have "(k, PRef t) \<in> set (h ! a)" by (rule map_of_SomeD)
  then have "t \<in> drefs (h ! a)" by (force simp: drefs_def)
  moreover have "drefs (h ! a) \<subseteq> {n..<length h}"
    using assms(1,2) a by (simp add: fresh_closed_def)
  ultimately show ?thesis by auto
qed

lemma sub_dict_Some: "sub_dict h a k = Some t \<longleftrightarrow> dict_get h a k = Some (PRef t)"
  by (auto simp: sub_dict_def split: option.splits pval.splits)

lemma deep_update_assign:
  "(\<And>d. val = JObject d \<Longrightarrow> sub_dict h target key = None) \<Longrightarrow>
   deep_update h target ((key, val) # source) = deep_update (assign h target key val) target source"
  by (cases val) simp_all

lemma deep_update_cases [case_names Nil Into Assign]:
  assumes "\<And>h target. P h target []"
    and "\<And>h target key d source t.
           sub_dict h target key = Some t \<Longrightarrow> P h t d \<Longrightarrow>
           P (deep_update h t d) target source \<Longrightarrow> P h target ((key, JObject d) # source)"
    and "\<And>h target key val source.
           (\<And>d. val = JObject d \<Longrightarrow> sub_dict h target key = None) \<Longrightarrow>
           P (assign h target key val) target source \<Longrightarrow> P h target ((key, val) # source)"
  shows "P h target source"
proof (induction h target source rule: deep_update.induct)
  case (1 h target)
  show ?case by (rule assms(1))
next
  case (2 h target key d source)
  show ?case
  proof (cases "sub_dict h target key")
    case None
    then show ?thesis using "2.IH"(1) by (intro assms(3)) simp_all
  next
    case (Some t)
    then show ?thesis using "2.IH"(2,3) by (intro assms(2)) simp_all
  qed
qed (rule assms(3); simp)+

lemma deep_update_frame:
  "fresh_closed n h \<Longrightarrow> n \<le> target \<Longrightarrow> target < length h \<Longrightarrow>
   fresh_closed n (deep_update h target source) \<and>
   take n (deep_update h target source) = take n h \<and>
   length h \<le> length (deep_update h target source)"
proof (induction h target source rule: deep_update_cases)
  case (Nil h target)
  then show ?case by simp
next
  case (Into h target key d source t)
  from Into.hyps have "dict_get h target key = Some (PRef t)" by (simp add: sub_dict_Some)
  from fresh_closed_ref [OF Into.prems(1,2) this] have tb: "n \<le> t" "t < length h" by simp_all
  from Into.IH(1) [OF Into.prems(1) tb] have
    i: "fresh_closed n (deep_update h t d)" "take n (deep_update h t d) = take n h"
      "length h \<le> length (deep_update h t d)" by simp_all
  from i(3) Into.prems(3) have "target < length (deep_update h t d)" by simp
  from Into.IH(2) [OF i(1) Into.prems(2) this] i(2,3) Into.hyps
  show ?case by simp
next
  case (Assign h target key val source)
  note f = assign_frame [OF Assign.prems, of key val]
  from f(3) Assign.prems(3) have "target < length (assign h target key val)" by simp
  from Assign.IH [OF f(1) Assign.prems(2) this] f(2,3) deep_update_assign [OF Assign.hyps]
  show ?case by simp
qed

subsection \<open>keys_kept\<close>

lemma keys_kept_refl: "keys_kept h h"
  by (simp add: keys_kept_def)

lemma keys_kept_trans: "keys_kept h h1 \<Longrightarrow> keys_kept h1 h2 \<Longrightarrow> keys_kept h h2"
  unfolding keys_kept_def by (meson dual_order.trans order_less_le_trans)

lemma keys_kept_dict_set: "keys_kept h (dict_set h a k v)"
  by (auto simp: keys_kept_def dict_set_nth update_key_set)

lemma keys_kept_assign: "keys_kept h (assign h target key val)"
proof -
  obtain v h' where a: "alloc val h = (v, h')" by fastforce
  from alloc_ext [of val h] a obtain ext where "h' = h @ ext" by auto
  then have "keys_kept h h'" by (simp add: keys_kept_def nth_append)
  then show ?thesis
    using a keys_kept_dict_set [of h' target key v] by (auto simp: assign_def intro: keys_kept_trans)
qed

lemma keys_kept_deep_update: "keys_kept h (deep_update h target source)"
proof (induction h target source rule: deep_update_cases)
  case (Nil h target)
  show ?case by (simp add: keys_kept_refl)
next
  case (Into h target key d source t)
  then show ?case by (auto intro: keys_kept_trans)
next
  case (Assign h target key val source)
  then show ?case
    using keys_kept_assign [of h target key val] deep_update_assign [of val h target key source]
    by (auto intro: keys_kept_trans)
qed

subsection \<open>\<^verbatim>\<open>copy.deepcopy\<close> and \<^verbatim>\<open>load_config\<close> write to new objects only\<close>





lemma convert_refs: "convert conv s = Inr v \<Longrightarrow> refs v = {}"
  by (cases conv) (auto split: sum.splits)






subsection \<open>The deep copy of \<^verbatim>\<open>DEFAULT_CONFIG\<close>\<close>

lemma deepcopy_atomic: "atomic v \<Longrightarrow> deepcopy (Suc k) v s = Some (v, s)"
  by (cases v) auto

lemma copy_items_atomic:
  "\<forall>kv \<in> set d. atomic (snd kv) \<Longrightarrow>
   copy_items (deepcopy (Suc k)) d y (h, m) =
     Some (foldl (\<lambda>h kv. dict_set h y (fst kv) (snd kv)) h d, m)"
proof (induction d arbitrary: h)
  case Nil
  show ?case by simp
next
  case (Cons kv d)
  obtain key v where kv: "kv = (key, v)" by (cases kv)
  with Cons.prems have "atomic v" by simp
  then have "deepcopy (Suc k) v (h, m) = Some (v, (h, m))" by (rule deepcopy_atomic)
  then show ?case using Cons kv by simp
qed

lemma update_new: "k \<notin> fst ` set al \<Longrightarrow> AList.update k v al = al @ [(k, v)]"
  by (induction al) auto

lemma foldl_dict_set:
  "y < length h \<Longrightarrow> distinct (map fst (h ! y @ d)) \<Longrightarrow>
   foldl (\<lambda>h kv. dict_set h y (fst kv) (snd kv)) h d = h[y := h ! y @ d]"
proof (induction d arbitrary: h)
  case Nil
  then show ?case by simp
next
  case (Cons kv d)
  let ?h1 = "dict_set h y (fst kv) (snd kv)"
  from Cons.prems(2) have "fst kv \<notin> fst ` set (h ! y)" by auto
  then have u: "AList.update (fst kv) (snd kv) (h ! y) = h ! y @ [kv]"
    using update_new [of "fst kv" "h ! y" "snd kv"] by simp
  then have 1: "?h1 ! y = h ! y @ [kv]" using Cons.prems(1) by (simp add: dict_set_nth)
  have "foldl (\<lambda>h kv. dict_set h y (fst kv) (snd kv)) ?h1 d = ?h1[y := ?h1 ! y @ d]"
    using Cons.prems 1 by (intro Cons.IH) simp_all
  then show ?case using 1 by (simp add: dict_set_def)
qed

lemma deepcopy_flat:
  assumes "a < length h" and "m a = None" and "flat (h ! a)"
  shows "deepcopy (Suc (Suc k)) (PRef a) (h @ xs, m) =
         Some (PRef (length h + length xs),
               (h @ xs @ [h ! a], m(a \<mapsto> length h + length xs)))"
proof -
  let ?y = "length (h @ xs)"
  have a: "(h @ xs) ! a = h ! a" using assms(1) by (simp add: nth_append)
  have "copy_items (deepcopy (Suc k)) (h ! a) ?y ((h @ xs) @ [[]], m(a \<mapsto> ?y)) =
        Some (foldl (\<lambda>h kv. dict_set h ?y (fst kv) (snd kv)) ((h @ xs) @ [[]]) (h ! a), m(a \<mapsto> ?y))"
    using assms(3) by (intro copy_items_atomic) (simp add: flat_def)
  moreover have "foldl (\<lambda>h kv. dict_set h ?y (fst kv) (snd kv)) ((h @ xs) @ [[]]) (h ! a) =
                 ((h @ xs) @ [[]])[?y := ((h @ xs) @ [[]]) ! ?y @ h ! a]"
    using assms(3) by (intro foldl_dict_set) (simp_all add: flat_def nth_append)
  moreover have "((h @ xs) @ [[]])[?y := ((h @ xs) @ [[]]) ! ?y @ h ! a] = h @ xs @ [h ! a]"
    by (simp add: nth_append list_update_append)
  ultimately show ?thesis using assms(1,2) a by (simp add: Let_def)
qed

lemma dict_set_at_end: "dict_set (h @ x # xs) (length h) k v = h @ AList.update k v x # xs"
  by (simp add: dict_set_def list_update_append nth_append)

lemma deepcopy_installed:
  assumes "installed h"
  shows "\<exists>memo. deepcopy (Suc (Suc (Suc k))) DEFAULT_CONFIG_obj (h, Map.empty) =
         Some (PRef (length h), (h @ config_copy (length h), memo))"
proof -
  note i = installed_nth [OF assms]
  have l: "0 < length h" "1 < length h" "2 < length h" "3 < length h" "4 < length h"
    using i(1) by auto
  have f: "flat (h ! 0)" "flat (h ! 1)" "flat (h ! 2)" "flat (h ! 3)"
    using i(2-5) by (simp_all add: module_store_eq flat_def)
  have r: "h ! 4 = [(''database'', PRef 0), (''output'', PRef 1), (''logging'', PRef 2),
      (''message_types'', PRef 3),
      (''default_message_format'', PStr ''***Sent a {message_type}***'')]"
    using i(6) by (simp add: module_store_eq)
  let ?n = "length h"
  let ?n1 = "Suc ?n"
  let ?n2 = "Suc (Suc ?n)"
  let ?n3 = "Suc (Suc (Suc ?n))"
  let ?n4 = "Suc (Suc (Suc (Suc ?n)))"
  have e: "?n + 1 = ?n1" "?n + 2 = ?n2" "?n + 3 = ?n3" "?n + 4 = ?n4" by simp_all
  have c0: "deepcopy (Suc (Suc k)) (PRef 0) (h @ [[]], [4 \<mapsto> ?n]) =
      Some (PRef ?n1, (h @ [[], h ! 0], [4 \<mapsto> ?n, 0 \<mapsto> ?n1]))"
    using deepcopy_flat [OF l(1) _ f(1), of "[4 \<mapsto> ?n]" k "[[]]"]
    by (simp del: deepcopy.simps)
  have c1: "\<And>x. deepcopy (Suc (Suc k)) (PRef (Suc 0)) (h @ [x, h ! 0], [4 \<mapsto> ?n, 0 \<mapsto> ?n1]) =
      Some (PRef ?n2, (h @ [x, h ! 0, h ! Suc 0], [4 \<mapsto> ?n, 0 \<mapsto> ?n1, Suc 0 \<mapsto> ?n2]))"
    using deepcopy_flat [OF l(2) _ f(2), of "[4 \<mapsto> ?n, 0 \<mapsto> ?n1]" k "[x, h ! 0]" for x]
    by (simp del: deepcopy.simps)
  have c2: "\<And>x. deepcopy (Suc (Suc k)) (PRef 2) (h @ [x, h ! 0, h ! Suc 0],
        [4 \<mapsto> ?n, 0 \<mapsto> ?n1, Suc 0 \<mapsto> ?n2]) =
      Some (PRef ?n3, (h @ [x, h ! 0, h ! Suc 0, h ! 2],
        [4 \<mapsto> ?n, 0 \<mapsto> ?n1, Suc 0 \<mapsto> ?n2, 2 \<mapsto> ?n3]))"
    using deepcopy_flat [OF l(3) _ f(3), of "[4 \<mapsto> ?n, 0 \<mapsto> ?n1, 1 \<mapsto> ?n2]" k
        "[x, h ! 0, h ! 1]" for x]
    by (simp del: deepcopy.simps add: e)
  have c3: "\<And>x. deepcopy (Suc (Suc k)) (PRef 3) (h @ [x, h ! 0, h ! Suc 0, h ! 2],
        [4 \<mapsto> ?n, 0 \<mapsto> ?n1, Suc 0 \<mapsto> ?n2, 2 \<mapsto> ?n3]) =
      Some (PRef ?n4, (h @ [x, h ! 0, h ! Suc 0, h ! 2, h ! 3],
        [4 \<mapsto> ?n, 0 \<mapsto> ?n1, Suc 0 \<mapsto> ?n2, 2 \<mapsto> ?n3, 3 \<mapsto> ?n4]))"
    using deepcopy_flat [OF l(4) _ f(4),
        of "[4 \<mapsto> ?n, 0 \<mapsto> ?n1, 1 \<mapsto> ?n2, 2 \<mapsto> ?n3]" k
        "[x, h ! 0, h ! 1, h ! 2]" for x]
    by (simp del: deepcopy.simps add: e)
  have c4: "\<And>s. deepcopy (Suc (Suc k)) (PStr ''***Sent a {message_type}***'') s =
      Some (PStr ''***Sent a {message_type}***'', s)"
    by simp
  have cc: "config_copy ?n =
      [[(''database'', PRef ?n1), (''output'', PRef ?n2), (''logging'', PRef ?n3),
        (''message_types'', PRef ?n4),
        (''default_message_format'', PStr ''***Sent a {message_type}***'')],
       h ! 0, h ! Suc 0, h ! 2, h ! 3]"
    using i(2-5) by (simp add: config_copy_def default_dict_eqs e)
  have "copy_items (deepcopy (Suc (Suc k))) (h ! 4) ?n (h @ [[]], [4 \<mapsto> ?n]) =
        Some (h @ config_copy ?n,
          [4 \<mapsto> ?n, 0 \<mapsto> ?n1, Suc 0 \<mapsto> ?n2, 2 \<mapsto> ?n3, 3 \<mapsto> ?n4])"
    unfolding r cc
    by (simp add: c0 c1 c2 c3 c4 dict_set_at_end del: deepcopy.simps)
  then show ?thesis
    using l(5) by (simp add: DEFAULT_CONFIG_obj_eq Let_def)
qed

subsection \<open>The config dict and its sections\<close>

lemma rooted_ref:
  assumes "rooted c h" and "dict_get h c k = Some (PRef t)"
  shows "Suc c \<le> t" and "t < length h"
proof -
  from assms(2) have "(k, PRef t) \<in> set (h ! c)"
    by (auto simp: dict_get_def split: if_splits dest: map_of_SomeD)
  then have "t \<in> drefs (h ! c)" by (force simp: drefs_def)
  then show "Suc c \<le> t" and "t < length h" using assms(1) by (auto simp: rooted_def)
qed

lemma rooted_dict_set:
  assumes "rooted c h" and "refs v \<subseteq> {Suc c..<length h}"
  shows "rooted c (dict_set h a k v)"
proof -
  have "drefs (dict_set h a k v ! c) \<subseteq> {Suc c..<length h}"
    using assms drefs_update [of k v "h ! c"] by (auto simp: rooted_def dict_set_nth)
  then show ?thesis
    using assms by (simp add: rooted_def fresh_closed_dict_set)
qed

lemma dict_get_append: "a < length h \<Longrightarrow> dict_get (h @ ext) a k = dict_get h a k"
  by (simp add: dict_get_def nth_append)

lemma rooted_assign:
  assumes "rooted c h"
  shows "rooted c (assign h c key val)"
    and "\<And>s. s \<noteq> key \<Longrightarrow> dict_get (assign h c key val) c s = dict_get h c s"
proof -
  obtain v h' where a: "alloc val h = (v, h')" by fastforce
  from assms have c: "c < length h" and fc: "fresh_closed (Suc c) h"
    and r: "drefs (h ! c) \<subseteq> {Suc c..<length h}" by (simp_all add: rooted_def)
  from c have n: "Suc c \<le> length h" by simp
  note f = alloc_frame [OF fc n a]
  have "h' ! c = h ! c" using f(5) c by simp
  then have "rooted c h'" using c f(1,3) r by (auto simp: rooted_def)
  then show "rooted c (assign h c key val)"
    using a f(4) by (simp add: assign_def rooted_dict_set)
  show "dict_get (assign h c key val) c s = dict_get h c s" if "s \<noteq> key" for s
  proof -
    have "dict_get (dict_set h' c key v) c s = dict_get h' c s"
      using that by (simp add: dict_get_dict_set)
    moreover have "dict_get h' c s = dict_get h c s"
      using f(3,5) c by (simp add: dict_get_def)
    ultimately show ?thesis using a by (simp add: assign_def)
  qed
qed

lemma replaces_iff:
  "replaces source section = (\<exists>v. (section, v) \<in> set source \<and> \<not> is_object v)"
  by (force simp: replaces_def list_ex_iff)

lemma replaces_Cons: "replaces source s \<Longrightarrow> replaces (kv # source) s"
  by (simp add: replaces_def)

lemma deep_update_root:
  "rooted target h \<Longrightarrow>
   rooted target (deep_update h target source) \<and>
   (\<forall>s t. dict_get h target s = Some (PRef t) \<longrightarrow>
      dict_get (deep_update h target source) target s = Some (PRef t) \<or> replaces source s)"
proof (induction h target source rule: deep_update_cases)
  case (Nil h target)
  then show ?case by simp
next
  case (Into h target key d source t)
  let ?h1 = "deep_update h t d"
  from Into.hyps have g: "dict_get h target key = Some (PRef t)" by (simp add: sub_dict_Some)
  note tb = rooted_ref [OF Into.prems g]
  from Into.prems have c: "target < length h" and fc: "fresh_closed (Suc target) h"
    and r: "drefs (h ! target) \<subseteq> {Suc target..<length h}" by (simp_all add: rooted_def)
  from deep_update_frame [OF fc tb, of d] have
    f: "fresh_closed (Suc target) ?h1" "take (Suc target) ?h1 = take (Suc target) h"
      "length h \<le> length ?h1" by simp_all
  have "?h1 ! target = take (Suc target) ?h1 ! target" by simp
  also have "\<dots> = h ! target" unfolding f(2) by simp
  finally have same: "?h1 ! target = h ! target" .
  then have r1: "rooted target ?h1" using c f(1,3) r by (auto simp: rooted_def)
  have dg: "\<And>s. dict_get ?h1 target s = dict_get h target s"
    using same c f(3) by (simp add: dict_get_def)
  from Into.IH(2) [OF r1] Into.hyps show ?case
    by (auto simp: dg intro: replaces_Cons)
next
  case (Assign h target key val source)
  let ?h1 = "assign h target key val"
  note a = rooted_assign [OF Assign.prems, where key = key and val = val]
  note eq = deep_update_assign [OF Assign.hyps, where source = source]
  from Assign.IH [OF a(1)] have
    i1: "rooted target (deep_update ?h1 target source)" and
    i2: "\<And>s t. dict_get ?h1 target s = Some (PRef t) \<Longrightarrow>
           dict_get (deep_update ?h1 target source) target s = Some (PRef t) \<or> replaces source s"
    by blast+
  have "dict_get (deep_update ?h1 target source) target s = Some (PRef t) \<or>
        replaces ((key, val) # source) s"
    if g: "dict_get h target s = Some (PRef t)" for s t
  proof (cases "s = key")
    case True
    then have "sub_dict h target key = Some t" using g by (simp add: sub_dict_Some)
    then have "\<not> is_object val" using Assign.hyps by (cases val) auto
    then show ?thesis using True by (auto simp: replaces_iff)
  next
    case False
    then have "dict_get ?h1 target s = Some (PRef t)" using g a(2) by simp
    from i2 [OF this] show ?thesis by (auto intro: replaces_Cons)
  qed
  then show ?case using i1 eq by simp
qed

lemma merge_config_file_entries:
  "merge_config_file h (PRef c) fs p = deep_update h c (file_entries fs p)"
  by (auto simp: merge_config_file_def file_entries_def
      split: option.splits sum.splits json.splits)

lemma merge_message_types_file_entries:
  "merge_message_types_file h (PRef c) fs p =
     assign_from (file_entries fs p) ''default_message_format'' c
       (assign_from (file_entries fs p) ''message_types'' c h)"
  by (auto simp: merge_message_types_file_def file_entries_def assign_from_def
      split: option.splits sum.splits json.splits)

lemma rooted_assign_from:
  assumes "rooted c h"
  shows "rooted c (assign_from source key c h)"
    and "\<And>s. s \<noteq> key \<Longrightarrow> dict_get (assign_from source key c h) c s = dict_get h c s"
    and "map_of source key = None \<Longrightarrow> assign_from source key c h = h"
    and "keys_kept h (assign_from source key c h)"
  using rooted_assign [OF assms] assms keys_kept_assign keys_kept_refl
  by (auto simp: assign_from_def split: option.splits)

subsection \<open>\<^verbatim>\<open>int\<close> on a string of digits\<close>

lemma digit_not_special:
  "is_digit c \<Longrightarrow> \<not> is_space c \<and> c \<noteq> CHR ''-'' \<and> c \<noteq> CHR ''+'' \<and> c \<noteq> CHR ''_''"
  by (auto simp: is_digit_def is_space_def)

lemma parse_digits_step:
  assumes "is_digit c" and "cs \<noteq> []" and "hd cs \<noteq> CHR ''_''"
  shows "parse_digits acc (c # cs) = parse_digits (10 * acc + digit_val c) cs"
proof (cases cs)
  case Nil
  then show ?thesis using assms by simp
next
  case (Cons d ds)
  show ?thesis
    unfolding Cons
    apply (subst parse_digits.simps(2))
    apply (insert assms Cons)
    apply (simp add: Let_def del: parse_digits.simps)
    done
qed

lemma parse_digits_digits:
  "s \<noteq> [] \<Longrightarrow> \<forall>c \<in> set s. is_digit c \<Longrightarrow>
   parse_digits acc s = Some (foldl (\<lambda>a c. 10 * a + digit_val c) acc s)"
proof (induction s arbitrary: acc)
  case Nil
  then show ?case by simp
next
  case (Cons c cs)
  show ?case
  proof (cases "cs = []")
    case True
    then show ?thesis using Cons.prems by simp
  next
    case False
    then have "hd cs \<noteq> CHR ''_''" using Cons.prems digit_not_special by (cases cs) auto
    then have "parse_digits acc (c # cs) = parse_digits (10 * acc + digit_val c) cs"
      using Cons.prems False by (intro parse_digits_step) auto
    also have "\<dots> = Some (foldl (\<lambda>a c. 10 * a + digit_val c) (10 * acc + digit_val c) cs)"
      using Cons.prems False by (intro Cons.IH) auto
    finally show ?thesis by simp
  qed
qed

lemma strip_digits:
  assumes "s \<noteq> []" and "\<forall>c \<in> set s. is_digit c"
  shows "strip s = s"
proof -
  have "\<not> is_space (hd s)" using assms digit_not_special by (cases s) auto
  then have 1: "dropWhile is_space s = s" using assms(1) by (cases s) auto
  have "\<not> is_space (hd (rev s))"
    using assms digit_not_special by (simp add: hd_rev)
  then have "dropWhile is_space (rev s) = rev s" using assms(1) by (cases "rev s") auto
  then show ?thesis using 1 by (simp add: strip_def)
qed

lemma py_int_digits:
  assumes "s \<noteq> []" and "\<forall>c \<in> set s. is_digit c" and "length s \<le> int_max_str_digits"
  shows "py_int s = Inr (int (dec_value s))"
proof -
  obtain c cs where s: "s = c # cs" using assms(1) by (cases s) auto
  then have "c \<noteq> CHR ''-''" "c \<noteq> CHR ''+''" using assms(2) digit_not_special by auto
  moreover have "filter is_digit s = s" using assms(2) by (simp add: filter_id_conv)
  ultimately show ?thesis
    using strip_digits [OF assms(1,2)] parse_digits_digits [OF assms(1,2), of 0] s assms(3)
    by (simp add: py_int_def dec_value_def)
qed

lemma py_int_too_long:
  "int_max_str_digits < length (filter is_digit s) \<Longrightarrow> py_int s = Inl ValueError"
  by (simp add: py_int_def)

subsection \<open>The overrides\<close>

lemma apply_overrides_none:
  "\<forall>e \<in> set tbl. env (fst e) = None \<or> env (fst e) = Some [] \<Longrightarrow>
   apply_overrides tbl env config h = (None, h)"
  by (induction tbl env config h rule: apply_overrides.induct) auto

lemma set_nested_other_key:
  "set_nested h config sect key v = Inr h' \<Longrightarrow> key \<noteq> k \<Longrightarrow> dict_get h' a k = dict_get h a k"
  by (auto simp: set_nested_def dict_get_dict_set split: option.splits pval.splits)

lemma apply_overrides_other_key:
  "\<forall>e \<in> set tbl. snd (snd (snd e)) \<noteq> k \<Longrightarrow>
   dict_get (snd (apply_overrides tbl env config h)) a k = dict_get h a k"
proof (induction tbl arbitrary: h)
  case Nil
  show ?case by simp
next
  case (Cons e tbl)
  obtain var conv sect key where e: "e = (var, conv, sect, key)" by (cases e) auto
  from Cons.prems e have k: "key \<noteq> k" and r: "\<forall>e \<in> set tbl. snd (snd (snd e)) \<noteq> k" by auto
  show ?case
  proof (cases "env var = None \<or> env var = Some []")
    case True
    then show ?thesis using Cons.IH [OF r] e by auto
  next
    case False
    then obtain s where s: "env var = Some s" "s \<noteq> []" by auto
    show ?thesis
    proof (cases "convert conv s")
      case (Inl x)
      then show ?thesis using s e by simp
    next
      case (Inr v)
      show ?thesis
      proof (cases "set_nested h config sect key v")
        case (Inl x)
        then show ?thesis using s e Inr by simp
      next
        case n: (Inr h')
        from set_nested_other_key [OF n k] Cons.IH [OF r, of h'] s e Inr n
        show ?thesis by simp
      qed
    qed
  qed
qed

lemma set_nested_rooted:
  assumes "rooted c h" and "set_nested h (PRef c) sect key v = Inr h'" and "refs v = {}"
  shows "rooted c h'" and "h' ! c = h ! c" and "length h' = length h" and "keys_kept h h'"
    and "\<exists>t. dict_get h c sect = Some (PRef t) \<and> h' = dict_set h t key v"
proof -
  from assms(2) obtain t where t: "dict_get h c sect = Some (PRef t)" and h': "h' = dict_set h t key v"
    by (auto simp: set_nested_def split: option.splits pval.splits)
  note tb = rooted_ref [OF assms(1) t]
  show "rooted c h'" unfolding h' using assms(1,3) by (intro rooted_dict_set) simp_all
  show "h' ! c = h ! c" using tb by (simp add: h' dict_set_nth)
  show "length h' = length h" by (simp add: h')
  show "keys_kept h h'" unfolding h' by (rule keys_kept_dict_set)
  show "\<exists>t. dict_get h c sect = Some (PRef t) \<and> h' = dict_set h t key v" using t h' by blast
qed

lemma apply_overrides_rooted:
  "rooted c h \<Longrightarrow>
   rooted c (snd (apply_overrides tbl env (PRef c) h)) \<and>
   snd (apply_overrides tbl env (PRef c) h) ! c = h ! c \<and>
   length (snd (apply_overrides tbl env (PRef c) h)) = length h \<and>
   keys_kept h (snd (apply_overrides tbl env (PRef c) h))"
proof (induction tbl arbitrary: h)
  case Nil
  then show ?case by (simp add: keys_kept_refl)
next
  case (Cons e tbl)
  obtain var conv sect key where e: "e = (var, conv, sect, key)" by (cases e) auto
  show ?case
  proof (cases "env var = None \<or> env var = Some []")
    case True
    then have "apply_overrides (e # tbl) env (PRef c) h = apply_overrides tbl env (PRef c) h"
      using e by auto
    then show ?thesis using Cons.IH [OF Cons.prems] by simp
  next
    case False
    then obtain s where s: "env var = Some s" "s \<noteq> []" by auto
    show ?thesis
    proof (cases "convert conv s")
      case (Inl x)
      then have "apply_overrides (e # tbl) env (PRef c) h = (Some x, h)" using s e by simp
      then show ?thesis using Cons.prems by (simp add: keys_kept_refl)
    next
      case (Inr v)
      show ?thesis
      proof (cases "set_nested h (PRef c) sect key v")
        case (Inl x)
        then have "apply_overrides (e # tbl) env (PRef c) h = (Some x, h)"
          using s e Inr by simp
        then show ?thesis using Cons.prems by (simp add: keys_kept_refl)
      next
        case r: (Inr h')
        note n = set_nested_rooted [OF Cons.prems r convert_refs [OF Inr]]
        have eq: "apply_overrides (e # tbl) env (PRef c) h = apply_overrides tbl env (PRef c) h'"
          using s e Inr r by simp
        from Cons.IH [OF n(1)] have
          i: "rooted c (snd (apply_overrides tbl env (PRef c) h'))"
            "snd (apply_overrides tbl env (PRef c) h') ! c = h' ! c"
            "length (snd (apply_overrides tbl env (PRef c) h')) = length h'"
            "keys_kept h' (snd (apply_overrides tbl env (PRef c) h'))" by simp_all
        from n(4) i(4) have "keys_kept h (snd (apply_overrides tbl env (PRef c) h'))"
          by (rule keys_kept_trans)
        then show ?thesis unfolding eq using i(1,2,3) n(2,3) by simp
      qed
    qed
  qed
qed

lemma apply_overrides_succeeds:
  "rooted c h \<Longrightarrow>
   \<forall>e \<in> set tbl. (\<exists>t. dict_get h c (fst (snd (snd e))) = Some (PRef t)) \<and>
      (\<forall>x. env (fst e) = Some x \<longrightarrow> x \<noteq> [] \<longrightarrow> (\<exists>v. convert (fst (snd e)) x = Inr v)) \<Longrightarrow>
   fst (apply_overrides tbl env (PRef c) h) = None"
proof (induction tbl arbitrary: h)
  case Nil
  then show ?case by simp
next
  case (Cons e tbl)
  obtain var conv sect key where e: "e = (var, conv, sect, key)" by (cases e) auto
  show ?case
  proof (cases "env var = None \<or> env var = Some []")
    case True
    then show ?thesis using Cons e by auto
  next
    case False
    then obtain s where s: "env var = Some s" "s \<noteq> []" by auto
    from Cons.prems(2) e s obtain t v where
      t: "dict_get h c sect = Some (PRef t)" and v: "convert conv s = Inr v" by auto
    let ?h' = "dict_set h t key v"
    have r: "set_nested h (PRef c) sect key v = Inr ?h'" using t by (simp add: set_nested_def)
    note n = set_nested_rooted [OF Cons.prems(1) r convert_refs [OF v]]
    have "\<And>s. dict_get ?h' c s = dict_get h c s"
      using n(2,3) by (simp add: dict_get_def del: dict_set_length)
    then have "fst (apply_overrides tbl env (PRef c) ?h') = None"
      using Cons.prems(2) by (intro Cons.IH [OF n(1)]) simp
    then show ?thesis using s e v r by simp
  qed
qed

lemma apply_overrides_wins:
  "rooted c h \<Longrightarrow> distinct (map (\<lambda>e. snd (snd (snd e))) tbl) \<Longrightarrow>
   fst (apply_overrides tbl env (PRef c) h) = None \<Longrightarrow>
   \<forall>e \<in> set tbl. \<forall>x. env (fst e) = Some x \<and> x \<noteq> [] \<longrightarrow>
     (\<exists>t v. dict_get h c (fst (snd (snd e))) = Some (PRef t) \<and>
            convert (fst (snd e)) x = Inr v \<and>
            dict_get (snd (apply_overrides tbl env (PRef c) h)) t (snd (snd (snd e))) = Some v)"
proof (induction tbl arbitrary: h)
  case Nil
  then show ?case by simp
next
  case (Cons e tbl)
  obtain var conv sect key where e: "e = (var, conv, sect, key)" by (cases e) auto
  from Cons.prems(2) e have d: "distinct (map (\<lambda>e. snd (snd (snd e))) tbl)"
    and k: "\<forall>e' \<in> set tbl. snd (snd (snd e')) \<noteq> key" by auto
  show ?case
  proof (cases "env var = None \<or> env var = Some []")
    case True
    then have "apply_overrides (e # tbl) env (PRef c) h = apply_overrides tbl env (PRef c) h"
      using e by auto
    then show ?thesis using Cons.IH [OF Cons.prems(1) d] Cons.prems(3) True e by auto
  next
    case False
    then obtain s where s: "env var = Some s" "s \<noteq> []" by auto
    from Cons.prems(3) e s obtain v h' where
      v: "convert conv s = Inr v" and r: "set_nested h (PRef c) sect key v = Inr h'"
      by (auto split: sum.splits)
    note n = set_nested_rooted [OF Cons.prems(1) r convert_refs [OF v]]
    from n(5) obtain t where t: "dict_get h c sect = Some (PRef t)" and h': "h' = dict_set h t key v"
      by blast
    note tb = rooted_ref [OF Cons.prems(1) t]
    have eq: "apply_overrides (e # tbl) env (PRef c) h = apply_overrides tbl env (PRef c) h'"
      using e s v r by simp
    have root: "\<And>s. dict_get h' c s = dict_get h c s"
      using n(2,3) by (simp add: dict_get_def)
    have "dict_get (snd (apply_overrides tbl env (PRef c) h')) t key = dict_get h' t key"
      using k by (rule apply_overrides_other_key)
    also have "\<dots> = Some v" using tb by (simp add: h' dict_get_dict_set)
    finally have first: "dict_get (snd (apply_overrides tbl env (PRef c) h')) t key = Some v" .
    from Cons.prems(3) eq have "fst (apply_overrides tbl env (PRef c) h') = None" by simp
    from Cons.IH [OF n(1) d this] have rest:
      "\<forall>e \<in> set tbl. \<forall>x. env (fst e) = Some x \<and> x \<noteq> [] \<longrightarrow>
        (\<exists>t v. dict_get h c (fst (snd (snd e))) = Some (PRef t) \<and>
            convert (fst (snd e)) x = Inr v \<and>
            dict_get (snd (apply_overrides tbl env (PRef c) h')) t (snd (snd (snd e))) = Some v)"
      by (simp add: root)
    show ?thesis
      unfolding eq using first rest e s t v by auto
  qed
qed

subsection \<open>\<^verbatim>\<open>load_config\<close> on a store that has the module\<close>

lemma config_copy_length [simp]: "length (config_copy n) = 5"
  by (simp add: config_copy_def)

lemma config_copy_drefs: "\<forall>d \<in> set (config_copy n). drefs d \<subseteq> {Suc n..<n + 5}"
  by (simp add: config_copy_def drefs_def default_dict_eqs module_store_eq)

lemma config_copy_at:
  assumes "n = length h" and "i < 5"
  shows "(h @ config_copy n) ! (n + i) = config_copy n ! i"
  using assms by (simp add: nth_append)

lemma rooted_config_copy: "rooted (length h) (h @ config_copy (length h))"
proof -
  let ?n = "length h"
  let ?h0 = "h @ config_copy ?n"
  have el: "?h0 ! a \<in> set (config_copy ?n)" if "?n \<le> a" "a < ?n + 5" for a
  proof -
    from that have "a - ?n < length (config_copy ?n)" by simp
    then have "config_copy ?n ! (a - ?n) \<in> set (config_copy ?n)" by (rule nth_mem)
    then show ?thesis using that by (simp add: nth_append)
  qed
  have "fresh_closed (Suc ?n) ?h0"
    unfolding fresh_closed_def using el config_copy_drefs [of ?n] by auto
  moreover have "drefs (?h0 ! ?n) \<subseteq> {Suc ?n..<length ?h0}"
    using el [of ?n] config_copy_drefs [of ?n] by auto
  ultimately show ?thesis by (simp add: rooted_def)
qed

lemma config_copy_sections:
  assumes "n = length h"
  shows "dict_get (h @ config_copy n) n ''database'' = Some (PRef (n + 1))"
    and "dict_get (h @ config_copy n) n ''output'' = Some (PRef (n + 2))"
    and "dict_get (h @ config_copy n) n ''logging'' = Some (PRef (n + 3))"
    and "dict_get (h @ config_copy n) n ''message_types'' = Some (PRef (n + 4))"
    and "(h @ config_copy n) ! (n + 1) = default_dict ''database''"
    and "(h @ config_copy n) ! (n + 2) = default_dict ''output''"
    and "(h @ config_copy n) ! (n + 3) = default_dict ''logging''"
    and "(h @ config_copy n) ! (n + 4) = default_dict ''message_types''"
    and "fst ` set ((h @ config_copy n) ! n) = set default_keys"
  using assms
  by (simp_all add: dict_get_def nth_append config_copy_def default_keys_def DEFAULT_CONFIG_def)

lemma load_config_installed:
  assumes "installed h"
  shows "load_config h fs env config_file message_types_file =
     (case apply_overrides overrides env (PRef (length h))
             (merge_message_types_file
                (merge_config_file (h @ config_copy (length h)) (PRef (length h)) fs config_file)
                (PRef (length h)) fs message_types_file) of
        (Some e, h3) \<Rightarrow> (Inl e, h3)
      | (None, h3) \<Rightarrow> (Inr (PRef (length h)), h3))"
proof -
  have "recursion_limit = Suc (Suc (Suc 997))" by (simp add: recursion_limit_def)
  with deepcopy_installed [OF assms, of 997] obtain memo where
    "deepcopy recursion_limit DEFAULT_CONFIG_obj (h, Map.empty) =
       Some (PRef (length h), (h @ config_copy (length h), memo))" by auto
  then show ?thesis by (simp add: load_config_def Let_def)
qed

lemma overrides_keys: "distinct (map (\<lambda>e. snd (snd (snd e))) overrides)"
  by (simp add: overrides_def)

text \<open>The state before the overrides.\<close>

lemma merged_state:
  assumes "n = length h"
    and h2_def: "h2 = merge_message_types_file
                (merge_config_file (h @ config_copy n) (PRef n) fs config_file)
                (PRef n) fs message_types_file"
  shows "rooted n h2"
    and "keys_kept (h @ config_copy n) h2"
    and "\<And>s t. dict_get (h @ config_copy n) n s = Some (PRef t) \<Longrightarrow>
           s \<noteq> ''default_message_format'' \<Longrightarrow>
           dict_get h2 n s = Some (PRef t) \<or> replaces (file_entries fs config_file) s \<or>
           (s = ''message_types'' \<and> map_of (file_entries fs message_types_file) s \<noteq> None)"
proof -
  let ?h0 = "h @ config_copy n"
  let ?h1 = "deep_update ?h0 n (file_entries fs config_file)"
  let ?src = "file_entries fs message_types_file"
  let ?h1' = "assign_from ?src ''message_types'' n ?h1"
  have r0: "rooted n ?h0" unfolding assms(1) by (rule rooted_config_copy)
  note d = deep_update_root [OF r0, of "file_entries fs config_file"]
  from d have r1: "rooted n ?h1" by simp
  note a = rooted_assign_from [OF r1, where source = ?src and key = "''message_types''"]
  note b = rooted_assign_from [OF a(1), where source = ?src and key = "''default_message_format''"]
  have h2: "h2 = assign_from ?src ''default_message_format'' n ?h1'"
    by (simp add: h2_def merge_config_file_entries merge_message_types_file_entries)
  show "rooted n h2" unfolding h2 by (rule b(1))
  have "keys_kept ?h0 ?h1" by (rule keys_kept_deep_update)
  then have "keys_kept ?h0 ?h1'" using a(4) by (rule keys_kept_trans)
  then show "keys_kept ?h0 h2" unfolding h2 using b(4) by (rule keys_kept_trans)
  show "dict_get h2 n s = Some (PRef t) \<or> replaces (file_entries fs config_file) s \<or>
        (s = ''message_types'' \<and> map_of ?src s \<noteq> None)"
    if g: "dict_get ?h0 n s = Some (PRef t)" and nd: "s \<noteq> ''default_message_format''" for s t
  proof (cases "replaces (file_entries fs config_file) s")
    case True
    then show ?thesis by simp
  next
    case False
    with d g have 1: "dict_get ?h1 n s = Some (PRef t)" by blast
    show ?thesis
    proof (cases "s = ''message_types'' \<and> map_of ?src s \<noteq> None")
      case True
      then show ?thesis by blast
    next
      case False
      have "dict_get ?h1' n s = dict_get ?h1 n s"
      proof (cases "s = ''message_types''")
        case True
        with False have "map_of ?src ''message_types'' = None" by simp
        from a(3) [OF this] show ?thesis by simp
      next
        case False
        then show ?thesis by (rule a(2))
      qed
      moreover have "dict_get h2 n s = dict_get ?h1' n s"
        unfolding h2 using nd by (rule b(2))
      ultimately show ?thesis using 1 by simp
    qed
  qed
qed

lemma overrides_sections:
  "\<forall>e \<in> set overrides. fst (snd (snd e)) \<in> {''database'', ''output'', ''logging''}"
  by (simp add: overrides_def)

lemma overrides_conversions:
  "\<forall>e \<in> set overrides. fst (snd e) = AsInt \<longrightarrow> fst e = ''POSTGRES_PORT''"
  by (simp add: overrides_def)

lemma convert_total: "conv \<noteq> AsInt \<Longrightarrow> \<exists>v. convert conv x = Inr v"
  by (cases conv) simp_all

lemma merge_none [simp]:
  "merge_config_file h config fs None = h"
  "merge_message_types_file h config fs None = h"
  by (simp_all add: merge_config_file_def merge_message_types_file_def)

lemma reify_config_copy:
  assumes "n = length h"
  shows "reify 3 (h @ config_copy n) (PRef n) = Some DEFAULT_CONFIG"
proof -
  define H where "H = h @ config_copy n"
  have len: "length H = n + 5" by (simp add: H_def assms)
  have root: "H ! n =
     [(''database'', PRef (n + 1)), (''output'', PRef (n + 2)), (''logging'', PRef (n + 3)),
      (''message_types'', PRef (n + 4)),
      (''default_message_format'', PStr ''***Sent a {message_type}***'')]"
    using config_copy_at [OF assms, of 0] by (simp add: H_def config_copy_def)
  have s: "H ! Suc n = module_store ! 0" "H ! Suc (Suc n) = module_store ! 1"
    "H ! (n + 3) = module_store ! 2" "H ! (n + 4) = module_store ! 3"
    using config_copy_sections(5-8) [OF assms, folded H_def]
    by (simp_all add: default_dict_eqs)
  have two: "(2::nat) = Suc (Suc 0)" by simp
  have d: "reify 2 H (PRef (n + 1)) = map_option JObject (Some
         [(''host'', JStr ''localhost''),
          (''port'', JInt 5432),
          (''dbname'', JStr ''skype_archive''),
          (''user'', JStr ''postgres''),
          (''password'', JStr [])])"
    unfolding two by (subst reify.simps(2)) (simp add: len s default_dict_eqs module_store_eq)
  have out: "reify 2 H (PRef (n + 2)) = map_option JObject (Some
         [(''directory'', JStr ''output''),
          (''overwrite'', JBool False)])"
    unfolding two by (subst reify.simps(2)) (simp add: len s default_dict_eqs module_store_eq)
  have l: "reify 2 H (PRef (n + 3)) = map_option JObject (Some
         [(''level'', JStr ''INFO''),
          (''file'', JNull)])"
    unfolding two by (subst reify.simps(2)) (simp add: len s default_dict_eqs module_store_eq)
  have m: "reify 2 H (PRef (n + 4)) = map_option JObject (Some
         [(''Event/Call'', JStr ''***A call started/ended***''),
          (''Poll'', JStr ''***Created a poll***''),
          (''RichText/Media_Album'', JStr ''***Sent an album of images***''),
          (''RichText/Media_AudioMsg'', JStr ''***Sent a voice message***''),
          (''RichText/Media_CallRecording'', JStr ''***Sent a call recording***''),
          (''RichText/Media_Card'', JStr ''***Sent a media card***''),
          (''RichText/Media_FlikMsg'', JStr ''***Sent a moji***''),
          (''RichText/Media_GenericFile'', JStr ''***Sent a file***''),
          (''RichText/Media_Video'', JStr ''***Sent a video message***''),
          (''RichText/UriObject'', JStr ''***Sent a photo***''),
          (''RichText/ScheduledCallInvite'', JStr ''***Scheduled a call***''),
          (''RichText/Location'', JStr ''***Sent a location***''),
          (''RichText/Contacts'', JStr ''***Sent a contact***'')])"
    unfolding two by (subst reify.simps(2)) (simp add: len s default_dict_eqs module_store_eq)
  have f: "reify 2 H (PStr x) = Some (JStr x)" for x
    unfolding two by simp
  have three: "(3::nat) = Suc 2" by simp
  have "reify 3 H (PRef n) = Some DEFAULT_CONFIG"
    unfolding three
    by (subst reify.simps(2))
       (simp only: pval.case len root list.map fst_conv snd_conv d out l m f those.simps
          option.case option.map DEFAULT_CONFIG_def, simp)
  then show ?thesis by (simp only: H_def)
qed

text \<open>With the sections in place, the overrides succeed and each one that applies wins.\<close>

lemma load_config_overrides:
  assumes inst: "installed h"
    and keep: "\<forall>sect \<in> {''database'', ''output'', ''logging''}.
                 \<not> replaces (file_entries fs config_file) sect"
    and port: "\<forall>x. env ''POSTGRES_PORT'' = Some x \<and> x \<noteq> [] \<longrightarrow> (\<exists>i. py_int x = Inr i)"
  shows "\<exists>h'. load_config h fs env config_file message_types_file = (Inr (PRef (length h)), h') \<and>
     (\<forall>e \<in> set overrides. \<forall>x. env (fst e) = Some x \<and> x \<noteq> [] \<longrightarrow>
        (\<exists>t v. dict_get h' (length h) (fst (snd (snd e))) = Some (PRef t) \<and>
               convert (fst (snd e)) x = Inr v \<and>
               dict_get h' t (snd (snd (snd e))) = Some v))"
proof -
  define n where "n = length h"
  define h2 where "h2 = merge_message_types_file
                (merge_config_file (h @ config_copy n) (PRef n) fs config_file)
                (PRef n) fs message_types_file"
  define r where "r = apply_overrides overrides env (PRef n) h2"
  note m = merged_state [OF n_def h2_def]
  note cs = config_copy_sections(1-3) [OF n_def]
  have sect: "\<exists>t. dict_get h2 n s = Some (PRef t)"
    if "s \<in> {''database'', ''output'', ''logging''}" for s
  proof -
    from that cs obtain t where "dict_get (h @ config_copy n) n s = Some (PRef t)" by auto
    moreover have "s \<noteq> ''default_message_format''" "s \<noteq> ''message_types''"
      using that by auto
    moreover have "\<not> replaces (file_entries fs config_file) s" using that keep by blast
    ultimately show ?thesis using m(3) [of s t] by auto
  qed
  have conv: "\<exists>v. convert (fst (snd e)) x = Inr v"
    if "e \<in> set overrides" "env (fst e) = Some x" "x \<noteq> []" for e x
  proof (cases "fst (snd e) = AsInt")
    case True
    with that overrides_conversions have "fst e = ''POSTGRES_PORT''" by blast
    with that port obtain i where "py_int x = Inr i" by auto
    with True show ?thesis by simp
  next
    case False
    then show ?thesis by (rule convert_total)
  qed
  have ok: "fst r = None"
    unfolding r_def
    apply (rule apply_overrides_succeeds [OF m(1)])
    apply (insert sect overrides_sections conv)
    apply blast
    done
  note w = apply_overrides_wins [OF m(1) overrides_keys, of env, folded r_def, OF ok]
  note k = apply_overrides_rooted [OF m(1), of overrides env, folded r_def]
  have root: "dict_get (snd r) n s = dict_get h2 n s" for s
    using k m(1) by (simp add: dict_get_def rooted_def)
  obtain h3 where r: "r = (None, h3)" using ok by (cases r) auto
  have "load_config h fs env config_file message_types_file = (Inr (PRef n), snd r)"
    by (simp add: load_config_installed [OF inst] n_def [symmetric] h2_def [symmetric]
        r_def [symmetric] r)
  moreover have "\<exists>t v. dict_get (snd r) n (fst (snd (snd e))) = Some (PRef t) \<and>
               convert (fst (snd e)) x = Inr v \<and>
               dict_get (snd r) t (snd (snd (snd e))) = Some v"
    if "e \<in> set overrides" "env (fst e) = Some x" "x \<noteq> []" for e x
  proof -
    from w [rule_format, of e x] that
    obtain t v where "dict_get h2 n (fst (snd (snd e))) = Some (PRef t)"
      "convert (fst (snd e)) x = Inr v" "dict_get (snd r) t (snd (snd (snd e))) = Some v"
      by blast
    then show ?thesis by (simp add: root)
  qed
  ultimately show ?thesis unfolding n_def by blast
qed

lemma load_config_port:
  assumes "installed h"
    and "\<forall>sect \<in> {''database'', ''output'', ''logging''}.
           \<not> replaces (file_entries fs config_file) sect"
    and "env ''POSTGRES_PORT'' = Some s" and "s \<noteq> []" and "\<forall>c \<in> set s. is_digit c"
    and "length s \<le> int_max_str_digits"
  shows "\<exists>c t h'. load_config h fs env config_file message_types_file = (Inr (PRef c), h') \<and>
           dict_get h' c ''database'' = Some (PRef t) \<and>
           dict_get h' t ''port'' = Some (PInt (int (dec_value s)))"
proof -
  have "\<forall>x. env ''POSTGRES_PORT'' = Some x \<and> x \<noteq> [] \<longrightarrow> (\<exists>i. py_int x = Inr i)"
    using assms(3-6) py_int_digits by auto
  from load_config_overrides
    [where h = h and fs = fs and env = env and config_file = config_file and
      message_types_file = message_types_file, OF assms(1,2) this]
  obtain h' where l: "load_config h fs env config_file message_types_file =
        (Inr (PRef (length h)), h')"
    and w: "\<forall>e \<in> set overrides. \<forall>x. env (fst e) = Some x \<and> x \<noteq> [] \<longrightarrow>
        (\<exists>t v. dict_get h' (length h) (fst (snd (snd e))) = Some (PRef t) \<and>
               convert (fst (snd e)) x = Inr v \<and>
               dict_get h' t (snd (snd (snd e))) = Some v)" by blast
  have "(''POSTGRES_PORT'', AsInt, ''database'', ''port'') \<in> set overrides"
    by (simp add: overrides_def)
  from w [rule_format, OF this, of s] assms(3,4)
  obtain t v where "dict_get h' (length h) ''database'' = Some (PRef t)"
    "convert AsInt s = Inr v" "dict_get h' t ''port'' = Some v" by auto
  moreover have "convert AsInt s = Inr (PInt (int (dec_value s)))"
    using py_int_digits [OF assms(4,5,6)] by simp
  ultimately show ?thesis using l by auto
qed

lemma load_config_defaults:
  assumes "installed h"
    and "\<forall>e \<in> set overrides. env (fst e) = None \<or> env (fst e) = Some []"
  shows "load_config h fs env None None = (Inr (PRef (length h)), h @ config_copy (length h))"
  by (simp add: load_config_installed [OF assms(1)] apply_overrides_none [OF assms(2)])

subsection \<open>The result of \<^verbatim>\<open>load_config\<close>\<close>

lemma installed_module_store: "installed module_store"
  by (simp add: installed_def)

text \<open>
  C9. The claim: for every decimal numeral string in \<^verbatim>\<open>POSTGRES_PORT\<close>, \<^verbatim>\<open>load_config\<close>
  returns a config with that number as \<^verbatim>\<open>database.port\<close>. The override is
  \<^verbatim>\<open>int(os.getenv('POSTGRES_PORT'))\<close> with nothing around it: for a numeral of 4301 digits
  \<^verbatim>\<open>int\<close> raises \<^verbatim>\<open>ValueError\<close>, and so does \<^verbatim>\<open>load_config\<close>.
\<close>

theorem load_config_port_too_long:
  "fst (load_config module_store Map.empty
          [''POSTGRES_PORT'' \<mapsto> replicate 4301 (CHR ''1'')] None None) = Inl ValueError"
proof -
  define s where "s = replicate 4301 (CHR ''1'')"
  have len: "length s = 4301" unfolding s_def by (rule length_replicate)
  have "c = CHR ''1''" if "c \<in> set s" for c
    using that unfolding s_def in_set_replicate by blast
  then have "\<forall>c \<in> set s. is_digit c" by (auto simp: is_digit_def)
  then have "filter is_digit s = s" by (simp add: filter_id_conv)
  then have "int_max_str_digits < length (filter is_digit s)"
    by (simp add: int_max_str_digits_def len)
  then have "py_int s = Inl ValueError" by (rule py_int_too_long)
  moreover have "s \<noteq> []" using len by auto
  ultimately have "apply_overrides overrides [''POSTGRES_PORT'' \<mapsto> s] config h =
      (Some ValueError, h)" for config h
    by (simp add: overrides_def)
  then have "fst (load_config module_store Map.empty [''POSTGRES_PORT'' \<mapsto> s] None None) =
      Inl ValueError"
    by (simp add: load_config_installed [OF installed_module_store])
  then show ?thesis unfolding s_def .
qed

text \<open>
  C9, as amended. On a store that has the module, with \<^verbatim>\<open>POSTGRES_PORT\<close> set to a non-empty
  string of at most 4300 decimal digits, \<^verbatim>\<open>load_config\<close> returns a config whose
  \<^verbatim>\<open>database\<close> section has the integer that the string denotes as its \<^verbatim>\<open>port\<close>, whatever
  the message-types file is and for every config file that leaves the sections
  \<^verbatim>\<open>database\<close>, \<^verbatim>\<open>output\<close> and \<^verbatim>\<open>logging\<close> dicts. Without files and with each of the nine
  variables unset or empty, it returns a config that reads back as \<^verbatim>\<open>DEFAULT_CONFIG\<close>.
\<close>

theorem load_config_environment:
  assumes "installed h"
  shows "(env ''POSTGRES_PORT'' = Some s \<and> s \<noteq> [] \<and> (\<forall>c \<in> set s. is_digit c) \<and>
          length s \<le> int_max_str_digits \<and>
          (\<forall>sect \<in> {''database'', ''output'', ''logging''}.
             \<not> replaces (file_entries fs config_file) sect) \<longrightarrow>
          (\<exists>c t h'. load_config h fs env config_file message_types_file = (Inr (PRef c), h') \<and>
             dict_get h' c ''database'' = Some (PRef t) \<and>
             dict_get h' t ''port'' = Some (PInt (int (dec_value s))))) \<and>
         ((\<forall>e \<in> set overrides. env (fst e) = None \<or> env (fst e) = Some []) \<longrightarrow>
          (\<exists>c h'. load_config h fs env None None = (Inr (PRef c), h') \<and>
             reify 3 h' (PRef c) = Some DEFAULT_CONFIG))"
proof (intro conjI impI)
  assume "env ''POSTGRES_PORT'' = Some s \<and> s \<noteq> [] \<and> (\<forall>c \<in> set s. is_digit c) \<and>
          length s \<le> int_max_str_digits \<and>
          (\<forall>sect \<in> {''database'', ''output'', ''logging''}.
             \<not> replaces (file_entries fs config_file) sect)"
  then show "\<exists>c t h'. load_config h fs env config_file message_types_file = (Inr (PRef c), h') \<and>
             dict_get h' c ''database'' = Some (PRef t) \<and>
             dict_get h' t ''port'' = Some (PInt (int (dec_value s)))"
    using load_config_port [OF assms, of fs config_file env s message_types_file] by blast
next
  assume "\<forall>e \<in> set overrides. env (fst e) = None \<or> env (fst e) = Some []"
  from load_config_defaults [OF assms this, of fs] reify_config_copy [OF refl, of h]
  show "\<exists>c h'. load_config h fs env None None = (Inr (PRef c), h') \<and>
             reify 3 h' (PRef c) = Some DEFAULT_CONFIG"
    by blast
qed

theorem load_config_environment_witness:
  "(\<exists>c t h'. load_config module_store Map.empty sample_environ None None = (Inr (PRef c), h') \<and>
      dict_get h' c ''database'' = Some (PRef t) \<and> dict_get h' t ''port'' = Some (PInt 6543)) \<and>
   (\<exists>c h'. load_config module_store Map.empty Map.empty None None = (Inr (PRef c), h') \<and>
      reify 3 h' (PRef c) = Some DEFAULT_CONFIG)"
proof -
  have d: "\<forall>c \<in> set ''6543''. is_digit c" by (simp add: is_digit_def)
  have v: "int (dec_value ''6543'') = 6543" by (simp add: dec_value_def digit_val_def)
  have l: "length ''6543'' \<le> int_max_str_digits" by (simp add: int_max_str_digits_def)
  have r: "\<forall>sect \<in> {''database'', ''output'', ''logging''}.
             \<not> replaces (file_entries Map.empty None) sect"
    by (simp add: file_entries_def replaces_def)
  have e: "sample_environ ''POSTGRES_PORT'' = Some ''6543''" by (simp add: sample_environ_def)
  from load_config_environment
    [OF installed_module_store, of sample_environ "''6543''" Map.empty None None]
    load_config_environment
    [OF installed_module_store, of Map.empty "[]" Map.empty None None]
    d r e l
  show ?thesis by (simp add: v)
qed

text \<open>
  C2. The claim: every key of \<^verbatim>\<open>DEFAULT_CONFIG\<close>, each entry of the default
  \<^verbatim>\<open>message_types\<close> table included, is still in the result unless the file or the
  environment overrides that key. A message-types file with
  \<^verbatim>\<open>{"message_types": {"Custom/Type": "***Custom***"}}\<close> does not mention \<^verbatim>\<open>Poll\<close>, and the
  result has no \<^verbatim>\<open>Poll\<close> in its table: the table is assigned as a whole, not merged.
\<close>

theorem load_config_replaces_message_types:
  "fst (load_config module_store sample_types_files Map.empty None (Some ''types.json'')) =
     Inr (PRef 5) \<and>
   dict_get (snd (load_config module_store sample_types_files Map.empty None (Some ''types.json'')))
     5 ''message_types'' = Some (PRef 10) \<and>
   dict_get (snd (load_config module_store sample_types_files Map.empty None (Some ''types.json'')))
     10 ''Poll'' = None \<and>
   dict_get module_store 3 ''Poll'' = Some (PStr ''***Created a poll***'')"
proof -
  have n: "apply_overrides overrides Map.empty config h = (None, h)" for config h
    by (rule apply_overrides_none) simp
  have l: "length module_store = 5" by (simp add: module_store_eq)
  have "load_config module_store sample_types_files Map.empty None (Some ''types.json'') =
    (Inr (PRef 5),
     dict_set ((module_store @ config_copy 5) @ [[(''Custom/Type'', PStr ''***Custom***'')]])
       5 ''message_types'' (PRef 10))"
    by (simp add: load_config_installed [OF installed_module_store] n l
         merge_message_types_file_def sample_types_files_def assign_from_def assign_def)
  then show ?thesis
    by (simp add: dict_get_def dict_set_def l config_copy_def nth_append module_store_eq)
qed

lemma keys_keptD:
  assumes "keys_kept h h'" and "a < length h"
  shows "a < length h'" and "fst ` set (h ! a) \<subseteq> fst ` set (h' ! a)"
  using assms by (simp_all add: keys_kept_def)

text \<open>
  C2, as amended. On a store that has the module, a config that \<^verbatim>\<open>load_config\<close> returns
  is a dict with every top-level key of \<^verbatim>\<open>DEFAULT_CONFIG\<close>. Each of the four sections is
  still a dict with every key of the default section, unless the config file gives the
  section a value that is no dict or, for \<^verbatim>\<open>message_types\<close>, the message-types file has the
  key \<^verbatim>\<open>message_types\<close>: the section is then replaced as a whole. For each of the nine
  variables that is set and not empty, the key it overrides has the converted value of
  the variable, whatever the files gave.
\<close>

theorem load_config_keys:
  assumes "installed h"
    and "load_config h fs env config_file message_types_file = (Inr config, h')"
  shows "\<exists>c. config = PRef c \<and> c < length h' \<and>
     set default_keys \<subseteq> fst ` set (h' ! c) \<and>
     (\<forall>s \<in> {''database'', ''output'', ''logging'', ''message_types''}.
        replaces (file_entries fs config_file) s \<or>
        (s = ''message_types'' \<and> map_of (file_entries fs message_types_file) s \<noteq> None) \<or>
        (\<exists>t. dict_get h' c s = Some (PRef t) \<and> t < length h' \<and>
             fst ` set (default_dict s) \<subseteq> fst ` set (h' ! t))) \<and>
     (\<forall>e \<in> set overrides. \<forall>x. env (fst e) = Some x \<and> x \<noteq> [] \<longrightarrow>
        (\<exists>t v. dict_get h' c (fst (snd (snd e))) = Some (PRef t) \<and>
               convert (fst (snd e)) x = Inr v \<and>
               dict_get h' t (snd (snd (snd e))) = Some v))"
proof -
  define n where "n = length h"
  define h0 where "h0 = h @ config_copy n"
  define h2 where "h2 = merge_message_types_file
                (merge_config_file (h @ config_copy n) (PRef n) fs config_file)
                (PRef n) fs message_types_file"
  define r where "r = apply_overrides overrides env (PRef n) h2"
  note m = merged_state [OF n_def h2_def, folded h0_def]
  note k = apply_overrides_rooted [OF m(1), of overrides env, folded r_def]
  note cs = config_copy_sections [OF n_def, folded h0_def]
  have lc: "load_config h fs env config_file message_types_file =
     (case r of (Some e, h3) \<Rightarrow> (Inl e, h3) | (None, h3) \<Rightarrow> (Inr (PRef n), h3))"
    unfolding r_def h2_def n_def by (rule load_config_installed [OF assms(1)])
  from assms(2) have r: "r = (None, h')" and c: "config = PRef n"
    unfolding lc by (cases r; cases "fst r"; auto)+
  then have ok: "fst r = None" and h': "snd r = h'" by simp_all
  note w = apply_overrides_wins [OF m(1) overrides_keys, of env, folded r_def, OF ok]
  have len0: "length h0 = n + 5" by (simp add: h0_def n_def)
  have kk: "keys_kept h0 h'"
    using m(2) k unfolding h' by (blast intro: keys_kept_trans)
  have root: "dict_get h' n s = dict_get h2 n s" for s
    using k m(1) unfolding h' by (simp add: dict_get_def rooted_def)
  have 1: "n < length h'" using k m(1) unfolding h' by (simp add: rooted_def)
  have 2: "set default_keys \<subseteq> fst ` set (h' ! n)"
    using keys_keptD(2) [OF kk, of n] cs(9) len0 by simp
  have 3: "replaces (file_entries fs config_file) s \<or>
        (s = ''message_types'' \<and> map_of (file_entries fs message_types_file) s \<noteq> None) \<or>
        (\<exists>t. dict_get h' n s = Some (PRef t) \<and> t < length h' \<and>
             fst ` set (default_dict s) \<subseteq> fst ` set (h' ! t))"
    if s: "s \<in> {''database'', ''output'', ''logging'', ''message_types''}" for s
  proof -
    have "\<exists>t. dict_get h0 n s = Some (PRef t) \<and> t < length h0 \<and> h0 ! t = default_dict s"
    proof -
      consider "s = ''database''" | "s = ''output''" | "s = ''logging''"
        | "s = ''message_types''" using s by blast
      then show ?thesis
      proof cases
        case 1
        then show ?thesis using cs(1,5) len0 by simp
      next
        case 2
        then show ?thesis using cs(2,6) len0 by simp
      next
        case 3
        then show ?thesis using cs(3,7) len0 by simp
      next
        case 4
        then show ?thesis using cs(4,8) len0 by simp
      qed
    qed
    then obtain t where t: "dict_get h0 n s = Some (PRef t)" "t < length h0"
      "h0 ! t = default_dict s" by blast
    have nd: "s \<noteq> ''default_message_format''" using s by auto
    from m(3) [OF t(1) nd] consider "dict_get h2 n s = Some (PRef t)"
      | "replaces (file_entries fs config_file) s"
      | "s = ''message_types'' \<and> map_of (file_entries fs message_types_file) s \<noteq> None"
      by blast
    then show ?thesis
    proof cases
      case 1
      then have "dict_get h' n s = Some (PRef t)" by (simp add: root)
      moreover have "t < length h'" using kk t(2) by (rule keys_keptD(1))
      moreover have "fst ` set (default_dict s) \<subseteq> fst ` set (h' ! t)"
        using keys_keptD(2) [OF kk t(2)] t(3) by simp
      ultimately show ?thesis by blast
    next
      case 2
      then show ?thesis by (rule disjI1)
    next
      case 3
      then show ?thesis by (intro disjI2 disjI1)
    qed
  qed
  have 4: "\<exists>t v. dict_get h' n (fst (snd (snd e))) = Some (PRef t) \<and>
               convert (fst (snd e)) x = Inr v \<and>
               dict_get h' t (snd (snd (snd e))) = Some v"
    if "e \<in> set overrides" "env (fst e) = Some x \<and> x \<noteq> []" for e x
  proof -
    from w [rule_format, of e x] that
    obtain t v where "dict_get h2 n (fst (snd (snd e))) = Some (PRef t)"
      "convert (fst (snd e)) x = Inr v" "dict_get (snd r) t (snd (snd (snd e))) = Some v"
      by blast
    then show ?thesis by (simp add: root h')
  qed
  show ?thesis
    unfolding c
  proof (rule exI [of _ n], intro conjI ballI allI impI)
    show "PRef n = PRef n" by (rule refl)
    show "n < length h'" by (rule 1)
    show "set default_keys \<subseteq> fst ` set (h' ! n)" by (rule 2)
  next
    fix s assume "s \<in> {''database'', ''output'', ''logging'', ''message_types''}"
    then show "replaces (file_entries fs config_file) s \<or>
        (s = ''message_types'' \<and> map_of (file_entries fs message_types_file) s \<noteq> None) \<or>
        (\<exists>t. dict_get h' n s = Some (PRef t) \<and> t < length h' \<and>
             fst ` set (default_dict s) \<subseteq> fst ` set (h' ! t))" by (rule 3)
  next
    fix e x assume "e \<in> set overrides" "env (fst e) = Some x \<and> x \<noteq> []"
    then show "\<exists>t v. dict_get h' n (fst (snd (snd e))) = Some (PRef t) \<and>
               convert (fst (snd e)) x = Inr v \<and>
               dict_get h' t (snd (snd (snd e))) = Some v" by (rule 4)
  qed
qed

theorem load_config_keys_witness:
  "\<exists>c t h'. load_config module_store sample_config_files sample_host_environ
       (Some ''config.json'') None = (Inr (PRef c), h') \<and>
     dict_get h' c ''database'' = Some (PRef t) \<and>
     dict_get h' t ''host'' = Some (PStr ''db.example.org'') \<and>
     ''dbname'' \<in> fst ` set (h' ! t)"
proof -
  let ?src = "file_entries sample_config_files (Some ''config.json'')"
  have src: "?src = [(''database'', JObject [(''host'', JStr ''db.internal'')])]"
    by (simp add: file_entries_def sample_config_files_def)
  have keep: "\<forall>sect \<in> {''database'', ''output'', ''logging''}. \<not> replaces ?src sect"
    unfolding src by (simp add: replaces_def)
  have port: "\<forall>x. sample_host_environ ''POSTGRES_PORT'' = Some x \<and> x \<noteq> [] \<longrightarrow>
      (\<exists>i. py_int x = Inr i)"
    by (simp add: sample_host_environ_def)
  from load_config_overrides
    [where h = module_store and fs = sample_config_files and env = sample_host_environ and
      config_file = "Some ''config.json''" and message_types_file = None,
      OF installed_module_store keep port]
  obtain h' where l: "load_config module_store sample_config_files sample_host_environ
       (Some ''config.json'') None = (Inr (PRef (length module_store)), h')" by blast
  from load_config_keys [OF installed_module_store l]
  have s: "\<forall>s \<in> {''database'', ''output'', ''logging'', ''message_types''}.
        replaces ?src s \<or>
        (s = ''message_types'' \<and> map_of (file_entries sample_config_files None) s \<noteq> None) \<or>
        (\<exists>t. dict_get h' (length module_store) s = Some (PRef t) \<and> t < length h' \<and>
             fst ` set (default_dict s) \<subseteq> fst ` set (h' ! t))"
    and e: "\<forall>e \<in> set overrides. \<forall>x. sample_host_environ (fst e) = Some x \<and> x \<noteq> [] \<longrightarrow>
        (\<exists>t v. dict_get h' (length module_store) (fst (snd (snd e))) = Some (PRef t) \<and>
               convert (fst (snd e)) x = Inr v \<and>
               dict_get h' t (snd (snd (snd e))) = Some v)"
    by auto
  from s keep obtain t where t: "dict_get h' (length module_store) ''database'' = Some (PRef t)"
    "fst ` set (default_dict ''database'') \<subseteq> fst ` set (h' ! t)" by auto
  have "(''POSTGRES_HOST'', AsStr, ''database'', ''host'') \<in> set overrides"
    by (simp add: overrides_def)
  from e [rule_format, OF this, of "''db.example.org''"] t(1)
  have "dict_get h' t ''host'' = Some (PStr ''db.example.org'')"
    by (auto simp: sample_host_environ_def)
  moreover have "''dbname'' \<in> fst ` set (default_dict ''database'')"
    by (simp add: default_dict_eqs module_store_eq)
  ultimately show ?thesis using l t by blast
qed

end
